theory Spec2Isabelle
  imports Main "HOL-Library.Word" "HOL-Library.Signed_Division"
begin

unbundle bit_operations_syntax

section \<open>Pocket CO2 detector: data model of \<open>User/main.c\<close>\<close>

text \<open>
  The firmware is a single C file.  Its \<open>int\<close> is the 32-bit integer of the
  target; the four fields of \<open>STATE\<close> are copied to and from FLASH through a
  \<open>uint32_t\<close> pointer, so they are kept as 32-bit words and compared signed
  (\<open><s\<close>, \<open>\<le>s\<close>) where the C compares \<open>int\<close>s.  Loop counters that stay
  within a few thousand are plain integers.  The wake-up interrupt handler,
  which only clears the display, the code under \<open>FUTURE\<close> and \<open>DEBUG_MODE\<close>
  (neither is defined) and the number formatting of \<open>i2str\<close> are left out.
\<close>

type_synonym i32 = "32 word"

record STATE =
  iMode :: i32
  iAlert :: i32
  iFreq :: i32
  iPeriod :: i32

definition MODE_CONTINUOUS :: i32 where "MODE_CONTINUOUS = 0"
definition MODE_LOW_POWER :: i32 where "MODE_LOW_POWER = 1"
definition MODE_STEALTH :: i32 where "MODE_STEALTH = 2"
definition MODE_CALIBRATE :: i32 where "MODE_CALIBRATE = 3"
definition MODE_TIMER :: i32 where "MODE_TIMER = 4"
definition MODE_COUNT :: i32 where "MODE_COUNT = 5"

definition ALERT_VIBRATION :: i32 where "ALERT_VIBRATION = 0"
definition ALERT_LED :: i32 where "ALERT_LED = 1"
definition ALERT_BOTH :: i32 where "ALERT_BOTH = 2"
definition ALERT_COUNT :: i32 where "ALERT_COUNT = 3"

definition MENU_START :: int where "MENU_START = 0"
definition MENU_MODE :: int where "MENU_MODE = 1"
definition MENU_FREQ :: int where "MENU_FREQ = 2"
definition MENU_ALERT :: int where "MENU_ALERT = 3"
definition MENU_TIME :: int where "MENU_TIME = 4"
definition MENU_COUNT :: int where "MENU_COUNT = 5"

definition LED_GREEN :: nat where "LED_GREEN = 0xc3"
definition LED_RED :: nat where "LED_RED = 0xc4"
definition MOTOR_PIN :: nat where "MOTOR_PIN = 0xc5"

text \<open>The two power profiles of \<open>scd41.h\<close>, which the file only names.\<close>

datatype powermode = SCD_POWERMODE_NORMAL | SCD_POWERMODE_LOW

text \<open>
  Every call that leaves \<open>main.c\<close> (sensor, display, GPIO, delays, FLASH
  programming) is recorded, in program order, as an event named after the
  function called.  \<open>Call_ShowAlert\<close> marks an entry into \<open>ShowAlert\<close>, whose
  body may produce no call at all; \<open>drawMenu\<close> stands for the block of
  \<open>oledWriteString\<close> calls that paints the menu, and \<open>drawReading\<close> for the
  painting done by \<open>ShowCurrent\<close>.
\<close>

datatype event =
    FLASH_ErasePage_Fast
  | FLASH_ProgramPage_Fast "i32 list"
  | scd41_start powermode
  | scd41_stop
  | scd41_getSample
  | scd41_recalibrate int
  | oledInit
  | oledContrast int
  | oledFill
  | oledPower bool
  | oledClearLine int
  | oledWriteString int int string
  | oledWriteStringCustom string
  | drawMenu int STATE
  | drawReading int int
  | digitalWrite nat bool
  | Delay_Ms int
  | Standby82ms int
  | I2CInit int
  | I2CSetSpeed int
  | Call_ShowAlert

text \<open>
  The machine: the global \<open>state\<close>, the words of the FLASH page at
  \<open>FLASH_START\<close> (by word offset), the sensor library's \<open>_iCO2\<close>, the static
  \<open>iSample\<close>, the readings the sensor will deliver (by sample number), and the
  calls made so far.
\<close>

record world =
  state :: STATE
  flash :: "nat \<Rightarrow> i32"
  iCO2 :: int
  iSample :: i32
  sensor :: "nat \<Rightarrow> int"
  nsamp :: nat
  trace :: "event list"

definition emit :: "event \<Rightarrow> world \<Rightarrow> world" where
  "emit e w = w\<lparr>trace := trace w @ [e]\<rparr>"

text \<open>The events a run added to the trace, and how many of them satisfy a predicate.\<close>

definition added :: "world \<Rightarrow> world \<Rightarrow> event list" where
  "added w w' = drop (length (trace w)) (trace w')"

definition calls :: "(event \<Rightarrow> bool) \<Rightarrow> event list \<Rightarrow> nat" where
  "calls P evs = length (filter P evs)"

subsection \<open>The settings record in FLASH\<close>

text \<open>\<open>s[i]\<close> and \<open>d[i]\<close> for a \<open>uint32_t\<close> pointer to a \<open>STATE\<close>.\<close>

definition get_word :: "STATE \<Rightarrow> nat \<Rightarrow> i32" where
  "get_word s i = (if i = 0 then iMode s else if i = 1 then iAlert s
                   else if i = 2 then iFreq s else iPeriod s)"

definition set_word :: "nat \<Rightarrow> i32 \<Rightarrow> STATE \<Rightarrow> STATE" where
  "set_word i v s = (if i = 0 then s\<lparr>iMode := v\<rparr> else if i = 1 then s\<lparr>iAlert := v\<rparr>
                     else if i = 2 then s\<lparr>iFreq := v\<rparr> else s\<lparr>iPeriod := v\<rparr>)"

text \<open>\<open>sizeof(state)/4\<close>\<close>

definition state_words :: nat where "state_words = 4"

text \<open>
  \<open>WriteFlash\<close>: erase the page, load the four words of \<open>state\<close> into the page
  buffer, program the page.  Only the words of the record are tracked: the
  program never reads the rest of the page.
\<close>

definition WriteFlash :: "world \<Rightarrow> world" where
  "WriteFlash w =
     (let w1 = emit FLASH_ErasePage_Fast w;
          f = fold (\<lambda>i f. f(i := get_word (state w1) i)) [0..<state_words] (flash w1)
      in emit (FLASH_ProgramPage_Fast (map f [0..<state_words])) (w1\<lparr>flash := f\<rparr>))"

text \<open>
  \<open>ReadFlash\<close>: copy the four words into \<open>state\<close>; when \<open>iPeriod\<close> is below 5 or
  above 60 the data is not valid: set the default values and write them.
\<close>

definition ReadFlash :: "world \<Rightarrow> world" where
  "ReadFlash w =
     (let w1 = w\<lparr>state := fold (\<lambda>i s. set_word i (flash w i) s) [0..<state_words] (state w)\<rparr>
      in if iPeriod (state w1) <s 5 \<or> 60 <s iPeriod (state w1)
         then WriteFlash (w1\<lparr>state := \<lparr>iMode = MODE_CONTINUOUS, iAlert = 0, iFreq = 30, iPeriod = 5\<rparr>\<rparr>)
         else w1)"

text \<open>The record the four FLASH words hold, and the defaults of the specification.\<close>

definition persisted :: "(nat \<Rightarrow> i32) \<Rightarrow> STATE" where
  "persisted f = \<lparr>iMode = f 0, iAlert = f 1, iFreq = f 2, iPeriod = f 3\<rparr>"

definition default_state :: STATE where
  "default_state = \<lparr>iMode = MODE_CONTINUOUS, iAlert = ALERT_VIBRATION, iFreq = 30, iPeriod = 5\<rparr>"

definition is_program :: "event \<Rightarrow> bool" where
  "is_program e = (case e of FLASH_ProgramPage_Fast _ \<Rightarrow> True | _ \<Rightarrow> False)"


subsection \<open>Buttons, LEDs, motor, alert\<close>

text \<open>
  One reading of the two button pins: the values \<open>digitalRead\<close> returns for
  \<open>BUTTON0_PIN\<close> and \<open>BUTTON1_PIN\<close> (0 when pressed).  The readings the
  program will see are passed as a list, one element for every call of
  \<open>GetButtons\<close>; a run that needs more readings than the list holds has not
  returned yet and yields \<open>None\<close>.
\<close>

type_synonym pins = "int \<times> int"

definition GetButtons :: "pins \<Rightarrow> int" where
  "GetButtons p =
     (let i = 0;
          i = (if fst p = 0 then i OR 1 else i);
          i = (if snd p = 0 then i OR 2 else i)
      in i)"

definition BlinkLED :: "nat \<Rightarrow> int \<Rightarrow> world \<Rightarrow> world" where
  "BlinkLED u8LED iDuration w =
     (let w = emit (digitalWrite u8LED True) w;
          w = emit (Delay_Ms iDuration) w
      in emit (digitalWrite u8LED False) w)"

definition Vibrate :: "int \<Rightarrow> world \<Rightarrow> world" where
  "Vibrate iDuration w =
     (let w = emit (digitalWrite MOTOR_PIN True) w;
          w = emit (Delay_Ms iDuration) w
      in emit (digitalWrite MOTOR_PIN False) w)"

definition ShowAlert :: "world \<Rightarrow> world" where
  "ShowAlert w0 =
     (let w = emit Call_ShowAlert w0
      in if iAlert (state w) = ALERT_VIBRATION
           then ((\<lambda>w. emit (Delay_Ms 820) (Vibrate 150 w)) ^^ 3) w
         else if iAlert (state w) = ALERT_LED
           then ((\<lambda>w. BlinkLED LED_RED 300 (BlinkLED LED_GREEN 300 w)) ^^ 4) w
         else if iAlert (state w) = ALERT_BOTH
           then ((\<lambda>w. BlinkLED LED_RED 400 (BlinkLED LED_GREEN 400 (Vibrate 150 w))) ^^ 3) w
         else w)"

text \<open>
  \<open>ShowTime\<close>: the five characters stored in \<open>szTemp\<close>.  C's \<open>/\<close> and \<open>%\<close>
  truncate towards zero (\<open>sdiv\<close>, \<open>smod\<close>); the conversion to \<open>char\<close> keeps
  the low eight bits.
\<close>

definition time_string :: "int \<Rightarrow> string" where
  "time_string iSecs =
     [CHR ''0'',
      char_of (iSecs sdiv 60 + 48),
      CHR '':'',
      char_of ((iSecs smod 60) sdiv 10 + 48),
      char_of (iSecs smod 10 + 48)]"

definition ShowTime :: "int \<Rightarrow> world \<Rightarrow> world" where
  "ShowTime iSecs w = emit (oledWriteStringCustom (time_string iSecs)) w"

text \<open>\<open>ShowCurrent\<close>: the emoji index is computed as in the source, the painting is one event.\<close>

definition ShowCurrent :: "world \<Rightarrow> world" where
  "ShowCurrent w =
     (let w = emit (I2CSetSpeed 400000) w;
          x = (iCO2 w - 500) sdiv 500;
          x = (if x < 0 then 0 else if x > 4 then 4 else x)
      in emit (drawReading (iCO2 w) x) w)"

text \<open>\<open>scd41_getSample\<close> stores the next reading in \<open>_iCO2\<close>.\<close>

definition getSample :: "world \<Rightarrow> world" where
  "getSample w = emit scd41_getSample (w\<lparr>iCO2 := sensor w (nsamp w), nsamp := Suc (nsamp w)\<rparr>)"

subsection \<open>Waiting for the buttons\<close>

text \<open>\<open>while (GetButtons() != 0) Delay_Ms(20);\<close>\<close>

fun wait_release :: "pins list \<Rightarrow> world \<Rightarrow> (world \<times> pins list) option" where
  "wait_release [] w = None"
| "wait_release (p # ps) w =
     (if GetButtons p \<noteq> 0 then wait_release ps (emit (Delay_Ms 20) w) else Some (w, ps))"

text \<open>\<open>while ((j = GetButtons()) == 0) Delay_Ms(20);\<close>, returning \<open>j\<close>.\<close>

fun wait_press :: "pins list \<Rightarrow> world \<Rightarrow> (int \<times> world \<times> pins list) option" where
  "wait_press [] w = None"
| "wait_press (p # ps) w =
     (if GetButtons p = 0 then wait_press ps (emit (Delay_Ms 20) w) else Some (GetButtons p, w, ps))"

subsection \<open>Timer mode\<close>

text \<open>One pass through the body of the countdown loop, after the quit test.\<close>

definition timer_tick :: "int \<Rightarrow> int \<Rightarrow> int \<Rightarrow> world \<Rightarrow> int \<times> world" where
  "timer_tick i j iTicks w =
     (let (iTicks, w) = (if j \<noteq> 0 \<and> iTicks = 0 then (5, emit (oledPower True) w) else (iTicks, w));
          (iTicks, w) = (if i = 10
                         then (11, if iTicks = 0 then emit (oledPower True) w else w)
                         else (iTicks, w));
          (iTicks, w) = (if iTicks \<noteq> 0
                         then (iTicks - 1, if iTicks - 1 = 0 then emit (oledPower False) w else w)
                         else (iTicks, w));
          w = BlinkLED (if i AND 1 \<noteq> 0 then LED_GREEN else LED_RED) 10 w
      in (iTicks, emit (Delay_Ms 990) w))"

text \<open>
  \<open>for (i = ...; i >= 0; i--)\<close>.  The flag of the result tells whether the
  function returned from inside the loop (both buttons).
\<close>

fun timer_loop :: "int \<Rightarrow> int \<Rightarrow> pins list \<Rightarrow> world \<Rightarrow> (bool \<times> world \<times> pins list) option" where
  "timer_loop i iTicks [] w = (if 0 \<le> i then None else Some (False, w, []))"
| "timer_loop i iTicks (p # ps) w =
     (if 0 \<le> i
      then (let w = ShowTime i w;
                j = GetButtons p
            in if j = 3 then Some (True, w, ps)
               else (let (iTicks, w) = timer_tick i j iTicks w
                     in timer_loop (i - 1) iTicks ps w))
      else Some (False, w, p # ps))"

definition RunTimer :: "pins list \<Rightarrow> world \<Rightarrow> (world \<times> pins list) option" where
  "RunTimer bs w =
     (let w = emit oledFill w;
          w = emit (oledWriteString 0 0 ''Timer Mode'') w
      in case timer_loop (sint (iPeriod (state w) * 60)) 5 bs w of
           None \<Rightarrow> None
         | Some (returned, w, bs) \<Rightarrow> if returned then Some (w, bs) else Some (ShowAlert w, bs))"


subsection \<open>The menu\<close>

text \<open>The \<open>switch (iSelItem)\<close> of \<open>RunMenu\<close>: the new \<open>bDone\<close> and \<open>state\<close>.\<close>

definition menu_action :: "int \<Rightarrow> STATE \<Rightarrow> bool \<times> STATE" where
  "menu_action iSelItem st =
     (if iSelItem = MENU_START then (True, st)
      else if iSelItem = MENU_MODE then
        (let st = st\<lparr>iMode := iMode st + 1\<rparr>
         in (False, if MODE_COUNT \<le>s iMode st then st\<lparr>iMode := 0\<rparr> else st))
      else if iSelItem = MENU_FREQ then
        (let st = st\<lparr>iFreq := iFreq st + 15\<rparr>
         in (False, if 60 <s iFreq st then st\<lparr>iFreq := 15\<rparr> else st))
      else if iSelItem = MENU_ALERT then
        (let st = st\<lparr>iAlert := iAlert st + 1\<rparr>
         in (False, if ALERT_COUNT \<le>s iAlert st then st\<lparr>iAlert := 0\<rparr> else st))
      else if iSelItem = MENU_TIME then
        (let st = st\<lparr>iPeriod := iPeriod st + 5\<rparr>
         in (False, if 60 <s iPeriod st then st\<lparr>iPeriod := 5\<rparr> else st))
      else (False, st))"

lemma wait_release_shorter:
  "wait_release bs w = Some (w', bs') \<Longrightarrow> length bs' < length bs"
  by (induction bs arbitrary: w) (auto split: if_splits simp: less_Suc_eq)

lemma wait_press_shorter:
  "wait_press bs w = Some (j, w', bs') \<Longrightarrow> length bs' < length bs"
  by (induction bs arbitrary: w) (auto split: if_splits simp: less_Suc_eq)

text \<open>
  \<open>while (!bDone)\<close>: paint, wait for the release, wait for a press, read the
  buttons once more and act on the reading.
\<close>

function menu_loop :: "int \<Rightarrow> pins list \<Rightarrow> world \<Rightarrow> (world \<times> pins list) option" where
  "menu_loop iSelItem bs w =
     (let w = emit (drawMenu iSelItem (state w)) w
      in case wait_release bs w of
           None \<Rightarrow> None
         | Some (w, bs1) \<Rightarrow>
             (case wait_press bs1 w of
                None \<Rightarrow> None
              | Some (j, w, bs2) \<Rightarrow>
                  (case bs2 of
                     [] \<Rightarrow> None
                   | p # bs3 \<Rightarrow>
                       (let y = GetButtons p
                        in if y AND 1 \<noteq> 0
                             then menu_loop (if iSelItem + 1 = MENU_COUNT then 0 else iSelItem + 1) bs3 w
                           else if y AND 2 \<noteq> 0
                             then (let (bDone, st) = menu_action iSelItem (state w);
                                       w = w\<lparr>state := st\<rparr>
                                   in if bDone then Some (w, bs3) else menu_loop iSelItem bs3 w)
                           else menu_loop iSelItem bs3 w))))"
  by pat_completeness auto
termination
proof (relation "measure (\<lambda>(iSelItem, bs, w). length bs)", goal_cases)
  case 1
  show ?case by simp
next
  case (2 iSelItem bs w x x2 x1 x2a x2b y x2c x2d x21 x22 xa)
  then show ?case
    by (auto dest!: wait_release_shorter wait_press_shorter)
next
  case (3 iSelItem bs w x x2 x1 x2a x2b y x2c x2d x21 x22 xa xb x1a x2e xc)
  then show ?case
    by (auto dest!: wait_release_shorter wait_press_shorter)
next
  case (4 iSelItem bs w x x2 x1 x2a x2b y x2c x2d x21 x22 xa)
  then show ?case
    by (auto dest!: wait_release_shorter wait_press_shorter)
qed

declare menu_loop.simps [simp del]

text \<open>\<open>memcmp(&state, &oldstate, sizeof(state)) != 0\<close>: some word of the two records differs.\<close>

definition memcmp_differs :: "STATE \<Rightarrow> STATE \<Rightarrow> bool" where
  "memcmp_differs s t = (map (get_word s) [0..<state_words] \<noteq> map (get_word t) [0..<state_words])"

definition RunMenu :: "pins list \<Rightarrow> world \<Rightarrow> (world \<times> pins list) option" where
  "RunMenu bs w =
     (let oldstate = state w;
          w = emit oledInit w;
          w = emit oledFill w;
          w = emit (oledContrast 150) w;
          w = emit (oledWriteString 4 0 ''Pocket CO2'') w
      in case menu_loop 0 bs w of
           None \<Rightarrow> None
         | Some (w, bs) \<Rightarrow>
             if iMode (state w) \<noteq> MODE_CALIBRATE \<and> memcmp_differs (state w) oldstate
             then Some (WriteFlash w, bs)
             else Some (w, bs))"


subsection \<open>Low power mode\<close>

text \<open>The LED cue shown after each sample.\<close>

definition led_cue :: "world \<Rightarrow> world" where
  "led_cue w =
     (if iCO2 w < 1000 then BlinkLED LED_GREEN 2 w
      else if iCO2 w > 1000 \<and> iCO2 w < 2000 then BlinkLED LED_RED 3 (BlinkLED LED_GREEN 2 w)
      else BlinkLED LED_RED 3 w)"

text \<open>
  One pass through \<open>while (1)\<close> after the quit test, with \<open>i\<close> the button
  reading: the new \<open>iUITick\<close>, \<open>iSampleTick\<close>, \<open>bWasSuspended\<close> and machine.
  \<open>DEBUG_MODE\<close> is not defined, so the pass sleeps with \<open>Standby82ms(3)\<close>.
\<close>

definition low_tick :: "int \<Rightarrow> int \<Rightarrow> int \<Rightarrow> int \<Rightarrow> world \<Rightarrow> int \<times> int \<times> int \<times> world" where
  "low_tick i iUITick iSampleTick bWasSuspended w =
     (let (iUITick, bWasSuspended, w) =
            (if i \<noteq> 0 \<and> iUITick = 0
             then (let (bWasSuspended, w) =
                         (if bWasSuspended = 1 then (0, emit (I2CInit 400000) w)
                          else (bWasSuspended, w));
                       w = emit (oledPower True) w;
                       w = ShowCurrent w
                   in (20, bWasSuspended, w))
             else (iUITick, bWasSuspended, w));
          w = emit (Standby82ms 3) w;
          bWasSuspended = 1;
          iSampleTick = iSampleTick + 1;
          (iSampleTick, bWasSuspended, w) =
            (if iSampleTick = 120
             then (let (bWasSuspended, w) =
                         (if bWasSuspended = 1 then (0, emit (I2CInit 50000) w)
                          else (bWasSuspended, emit (I2CSetSpeed 50000) w));
                       w = getSample w;
                       w = led_cue w
                   in (0, bWasSuspended, w))
             else (iSampleTick, bWasSuspended, w));
          (iUITick, bWasSuspended, w) =
            (if iUITick > 0
             then (let iUITick = iUITick - 1
                   in if iUITick = 0
                      then (let (bWasSuspended, w) =
                                  (if bWasSuspended \<noteq> 0 then (0, emit (I2CInit 400000) w)
                                   else (bWasSuspended, emit (I2CSetSpeed 400000) w))
                            in (iUITick, bWasSuspended, emit (oledPower False) w))
                      else (iUITick, bWasSuspended, w))
             else (iUITick, bWasSuspended, w))
      in (iUITick, iSampleTick, bWasSuspended, w))"

fun low_loop :: "int \<Rightarrow> int \<Rightarrow> int \<Rightarrow> pins list \<Rightarrow> world \<Rightarrow> (world \<times> pins list) option" where
  "low_loop iUITick iSampleTick bWasSuspended [] w = None"
| "low_loop iUITick iSampleTick bWasSuspended (p # ps) w =
     (let i = GetButtons p
      in if i = 3
         then (let w = (if bWasSuspended = 1 then emit (I2CInit 50000) w else w)
               in Some (emit scd41_stop w, ps))
         else (let (iUITick, iSampleTick, bWasSuspended, w) =
                     low_tick i iUITick iSampleTick bWasSuspended w
               in low_loop iUITick iSampleTick bWasSuspended ps w))"

definition RunLowPower :: "pins list \<Rightarrow> world \<Rightarrow> (world \<times> pins list) option" where
  "RunLowPower bs w =
     (let w = emit (I2CSetSpeed 50000) w;
          w = emit (scd41_start SCD_POWERMODE_LOW) w
      in low_loop 20 0 0 bs w)"

subsection \<open>Stealth mode\<close>

text \<open>The level computed from a sample: \<open>1 + _iCO2/500\<close>, kept within 1 and 6.\<close>

definition stealth_level :: "int \<Rightarrow> int" where
  "stealth_level co2 =
     (let iLevel = 1 + co2 sdiv 500
      in if iLevel < 1 then 1 else if iLevel > 6 then 6 else iLevel)"

text \<open>\<open>for (j=0; j<iLevel; j++) { Vibrate(100); Delay_Ms(395); iTick += 2; }\<close>\<close>

definition buzz :: "int \<Rightarrow> int \<times> world \<Rightarrow> int \<times> world" where
  "buzz iLevel = ((\<lambda>(iTick, w). (iTick + 2, emit (Delay_Ms 395) (Vibrate 100 w))) ^^ nat iLevel)"

text \<open>
  One pass through \<open>while (1)\<close> after the quit test: the new \<open>iTick\<close>,
  \<open>iLevel\<close> and machine.  \<open>iTick\<close> is an unbounded integer here; the 32-bit
  counter of the source agrees with it for the first \<open>2^31\<close> quarter seconds.
\<close>

definition stealth_tick :: "int \<Rightarrow> int \<Rightarrow> int \<Rightarrow> world \<Rightarrow> int \<times> int \<times> world" where
  "stealth_tick iUpdate iTick iLevel w =
     (let w = emit (Delay_Ms 250) w;
          (iLevel, w) = (if iTick smod 20 = 19
                         then (let w = getSample w in (stealth_level (iCO2 w), w))
                         else (iLevel, w));
          (iTick, w) = (if iTick smod iUpdate = iUpdate - 1
                        then buzz iLevel (iTick, w)
                        else (iTick, w))
      in (iTick + 1, iLevel, w))"

fun stealth_loop :: "int \<Rightarrow> int \<Rightarrow> int \<Rightarrow> pins list \<Rightarrow> world \<Rightarrow> (world \<times> pins list) option" where
  "stealth_loop iUpdate iTick iLevel [] w = None"
| "stealth_loop iUpdate iTick iLevel (p # ps) w =
     (let j = GetButtons p
      in if j = 3 then Some (emit scd41_stop (emit oledFill w), ps)
         else (let (iTick, iLevel, w) = stealth_tick iUpdate iTick iLevel w
               in stealth_loop iUpdate iTick iLevel ps w))"

definition RunStealth :: "pins list \<Rightarrow> world \<Rightarrow> (world \<times> pins list) option" where
  "RunStealth bs w =
     (let iUpdate = sint (iFreq (state w) * 4);
          w = emit oledFill w;
          w = emit (oledWriteString 22 0 ''Stealth'') w;
          w = emit (oledWriteString 0 16 ''CO2 measurements will'') w;
          w = emit (oledWriteString 0 24 ''be converted to 1-6'') w;
          w = emit (oledWriteString 0 32 ''pulses. 1=good, 6=bad'') w;
          w = emit (oledWriteString 0 56 ''press button to start'') w
      in case wait_release bs w of
           None \<Rightarrow> None
         | Some (w, bs) \<Rightarrow>
             (case wait_press bs w of
                None \<Rightarrow> None
              | Some (j, w, bs) \<Rightarrow>
                  (let w = emit oledFill w;
                       w = emit (oledPower False) w;
                       w = emit (I2CSetSpeed 50000) w;
                       w = emit (scd41_start SCD_POWERMODE_NORMAL) w
                   in stealth_loop iUpdate 0 1 bs w)))"

subsection \<open>Calibration\<close>

text \<open>\<open>for (i=210; i>=0; i--)\<close>; the flag tells whether the user quit inside the loop.\<close>

fun calibrate_loop :: "int \<Rightarrow> pins list \<Rightarrow> world \<Rightarrow> (bool \<times> world \<times> pins list) option" where
  "calibrate_loop i [] w = (if 0 \<le> i then None else Some (False, w, []))"
| "calibrate_loop i (p # ps) w =
     (if 0 \<le> i
      then (let w = ShowTime i w;
                j = GetButtons p
            in if j = 3 then Some (True, emit scd41_stop w, ps)
               else calibrate_loop (i - 1) ps (emit (Delay_Ms 1000) w))
      else Some (False, w, p # ps))"

text \<open>
  \<open>RunCalibrate\<close>.  \<open>SCD_SUCCESS\<close> (a constant of \<open>scd41.h\<close>) and the value
  the sensor library returns from \<open>scd41_recalibrate\<close> are parameters.
\<close>

definition RunCalibrate :: "int \<Rightarrow> int \<Rightarrow> pins list \<Rightarrow> world \<Rightarrow> (world \<times> pins list) option" where
  "RunCalibrate SCD_SUCCESS result bs w =
     (let w = emit oledFill w;
          w = emit (oledWriteString 10 0 ''Calibrate'') w;
          w = emit (oledWriteString 0 16 ''Place device in a'') w;
          w = emit (oledWriteString 0 24 ''free air environment.'') w;
          w = emit (oledWriteString 0 32 ''Press either button'') w;
          w = emit (oledWriteString 0 40 ''to start. When timer'') w;
          w = emit (oledWriteString 0 48 ''finishes, result will'') w;
          w = emit (oledWriteString 0 56 ''show success or fail'') w
      in case wait_release bs w of
           None \<Rightarrow> None
         | Some (w, bs) \<Rightarrow>
             (case wait_press bs w of
                None \<Rightarrow> None
              | Some (j, w, bs) \<Rightarrow>
                  if j = 3 then Some (w, bs)
                  else (let w = emit oledFill w;
                            w = emit (oledWriteString 0 0 ''Calibration running'') w;
                            w = emit (I2CSetSpeed 50000) w;
                            w = emit (scd41_start SCD_POWERMODE_NORMAL) w
                        in case calibrate_loop 210 bs w of
                             None \<Rightarrow> None
                           | Some (quit, w, bs) \<Rightarrow>
                               if quit then Some (w, bs)
                               else (let w = emit (oledClearLine 24) w;
                                         w = emit (oledClearLine 32) w;
                                         w = emit (oledClearLine 40) w;
                                         w = emit (oledClearLine 48) w;
                                         w = emit scd41_stop w;
                                         w = emit (scd41_recalibrate 423) w;
                                         i = result;
                                         w = (if i = SCD_SUCCESS
                                              then emit (oledWriteString 0 32 ''Success!'') w
                                              else emit (oledWriteString 0 32 ''Failed'') w);
                                         w = emit (oledWriteString 0 56 ''Press button to exit'') w
                                     in case wait_press bs w of
                                          None \<Rightarrow> None
                                        | Some (j, w, bs) \<Rightarrow> Some (w, bs)))))"

subsection \<open>Continuous mode and the dispatch of \<open>main\<close>\<close>

text \<open>The head of the endless loop: take a sample, count it, paint it.\<close>

definition continuous_sample :: "world \<Rightarrow> world" where
  "continuous_sample w =
     (let w = emit (I2CInit 50000) w;
          w = getSample w;
          w = w\<lparr>iSample := iSample w + 1\<rparr>;
          w = (if iSample w = 16 \<and> iMode (state w) \<noteq> MODE_CONTINUOUS
               then emit (oledPower False) w else w)
      in ShowCurrent w)"

text \<open>
  \<open>for (i=0; i<61; i+=3)\<close> inside \<open>while (1)\<close>: when the inner loop is over,
  the next sample is taken and the inner loop starts again.  Both buttons
  stop the sensor and go back to \<open>menu_top\<close>.
\<close>

fun continuous_loop :: "int \<Rightarrow> pins list \<Rightarrow> world \<Rightarrow> (world \<times> pins list) option" where
  "continuous_loop i [] w = None"
| "continuous_loop i (p # ps) w =
     (let w = emit (Standby82ms 3) w;
          bWasSuspended = (1::int);
          j = GetButtons p
      in if j = 3
         then (let w = (if bWasSuspended = 1 then emit (I2CInit 50000) w else w)
               in Some (emit scd41_stop w, ps))
         else if i + 3 < 61 then continuous_loop (i + 3) ps w
         else continuous_loop 0 ps (continuous_sample w))"

definition RunContinuous :: "pins list \<Rightarrow> world \<Rightarrow> (world \<times> pins list) option" where
  "RunContinuous bs w =
     (let w = emit (I2CSetSpeed 50000) w;
          w = emit (scd41_start SCD_POWERMODE_NORMAL) w;
          w = emit (Standby82ms 59) w
      in continuous_loop 0 bs (continuous_sample w))"

text \<open>
  \<open>szMode[state.iMode]\<close>.  Outside the table the C reads past the array; the
  model shows nothing there.
\<close>

definition szMode :: "i32 \<Rightarrow> string" where
  "szMode m =
     (if 0 \<le> sint m \<and> sint m < 5
      then [''Continuous'', ''Low Power '', ''Stealth   '', ''Calibrate '', ''Timer     ''] ! nat (sint m)
      else [])"

text \<open>From the return of \<open>RunMenu\<close> to the next \<open>goto menu_top\<close>.\<close>

definition dispatch :: "int \<Rightarrow> int \<Rightarrow> pins list \<Rightarrow> world \<Rightarrow> (world \<times> pins list) option" where
  "dispatch SCD_SUCCESS result bs w =
     (let w = emit oledFill w;
          w = emit (oledWriteString 0 0 (szMode (iMode (state w)))) w;
          w = emit (oledWriteString 0 8 ''Starting...'') w
      in if iMode (state w) = MODE_TIMER then RunTimer bs w
         else if iMode (state w) = MODE_CALIBRATE then RunCalibrate SCD_SUCCESS result bs w
         else if iMode (state w) = MODE_LOW_POWER then RunLowPower bs w
         else if iMode (state w) = MODE_STEALTH then RunStealth bs w
         else RunContinuous bs w)"

text \<open>The start of \<open>main\<close>, up to the label \<open>menu_top\<close>.\<close>

definition boot :: "world \<Rightarrow> world" where
  "boot w =
     (let w = ReadFlash w;
          w = emit (digitalWrite MOTOR_PIN False) w;
          w = w\<lparr>state := (state w)\<lparr>iAlert := ALERT_LED\<rparr>\<rparr>
      in ShowAlert w)"

text \<open>The machine at reset: zeroed globals, the given FLASH contents and sensor readings.\<close>

definition power_on :: "(nat \<Rightarrow> i32) \<Rightarrow> (nat \<Rightarrow> int) \<Rightarrow> world" where
  "power_on f sens =
     \<lparr>state = \<lparr>iMode = 0, iAlert = 0, iFreq = 0, iPeriod = 0\<rparr>, flash = f, iCO2 = 0,
      iSample = 0, sensor = sens, nsamp = 0, trace = []\<rparr>"

text \<open>Button readings: none, button 0, button 1, both.\<close>

definition btn_none :: pins where "btn_none = (1, 1)"
definition btn_0 :: pins where "btn_0 = (0, 1)"
definition btn_1 :: pins where "btn_1 = (1, 0)"
definition btn_both :: pins where "btn_both = (0, 0)"


subsection \<open>Reading a displayed time back\<close>

text \<open>
  What a string of the form \<open>0M:SS\<close> (decimal digits, tens of seconds at most
  5) stands for, in seconds.
\<close>

definition digit_val :: "char \<Rightarrow> int option" where
  "digit_val c = (if 48 \<le> (of_char c :: int) \<and> (of_char c :: int) \<le> 57
                  then Some (of_char c - 48) else None)"

definition read_time :: "string \<Rightarrow> int option" where
  "read_time s =
     (case s of
        [z, m, c, t, u] \<Rightarrow>
          (if z = CHR ''0'' \<and> c = CHR '':''
           then (case (digit_val m, digit_val t, digit_val u) of
                   (Some m, Some t, Some u) \<Rightarrow> if t \<le> 5 then Some (m * 60 + t * 10 + u) else None
                 | _ \<Rightarrow> None)
           else None)
      | _ \<Rightarrow> None)"


subsection \<open>Observations on the trace\<close>

text \<open>The strings \<open>ShowTime\<close> displayed, in order.\<close>

definition time_of :: "event \<Rightarrow> string list" where
  "time_of e = (case e of oledWriteStringCustom s \<Rightarrow> [s] | _ \<Rightarrow> [])"

definition shown :: "event list \<Rightarrow> string list" where
  "shown evs = concat (map time_of evs)"

definition is_time :: "event \<Rightarrow> bool" where
  "is_time e = (case e of oledWriteStringCustom _ \<Rightarrow> True | _ \<Rightarrow> False)"

definition is_alert :: "event \<Rightarrow> bool" where
  "is_alert e = (e = Call_ShowAlert)"

definition is_start :: "event \<Rightarrow> bool" where
  "is_start e = (case e of scd41_start _ \<Rightarrow> True | _ \<Rightarrow> False)"

definition is_stop :: "event \<Rightarrow> bool" where
  "is_stop e = (e = scd41_stop)"

definition is_pulse :: "event \<Rightarrow> bool" where
  "is_pulse e = (e = digitalWrite MOTOR_PIN True)"

text \<open>
  Events other than the calls the properties below keep track of: FLASH
  programming, sensor start, stop and recalibration, the countdown display and
  the alert.
\<close>

definition untracked :: "event \<Rightarrow> bool" where
  "untracked e =
     (case e of
        FLASH_ErasePage_Fast \<Rightarrow> False
      | FLASH_ProgramPage_Fast _ \<Rightarrow> False
      | scd41_start _ \<Rightarrow> False
      | scd41_stop \<Rightarrow> False
      | scd41_recalibrate _ \<Rightarrow> False
      | oledWriteStringCustom _ \<Rightarrow> False
      | Call_ShowAlert \<Rightarrow> False
      | _ \<Rightarrow> True)"

text \<open>
  The use a session makes of the sensor, read off its events: \<open>Stopped\<close> is
  reached by exactly one start followed by exactly one stop; any other start
  or stop is a \<open>Misuse\<close>.
\<close>

datatype phase = Idle | Measuring | Stopped | Misuse

definition sensor_step :: "phase \<Rightarrow> event \<Rightarrow> phase" where
  "sensor_step ph e =
     (if is_start e then (if ph = Idle then Measuring else Misuse)
      else if is_stop e then (if ph = Measuring then Stopped else Misuse)
      else ph)"

definition sensor_phase :: "event list \<Rightarrow> phase" where
  "sensor_phase evs = foldl sensor_step Idle evs"

text \<open>The pulse \<open>Vibrate(100); Delay_Ms(395);\<close> as events.\<close>

definition pulse :: "event list" where
  "pulse = [digitalWrite MOTOR_PIN True, Delay_Ms 100, digitalWrite MOTOR_PIN False, Delay_Ms 395]"

text \<open>The modes and values a menu can select.\<close>

definition enumerated_mode :: "i32 \<Rightarrow> bool" where
  "enumerated_mode m =
     (m = MODE_CONTINUOUS \<or> m = MODE_LOW_POWER \<or> m = MODE_STEALTH \<or> m = MODE_CALIBRATE \<or> m = MODE_TIMER)"

text \<open>A FLASH page that holds the record \<open>s\<close>, and an erased one.\<close>

definition flash_of :: "STATE \<Rightarrow> nat \<Rightarrow> i32" where
  "flash_of s i = get_word s i"

definition flash_erased :: "nat \<Rightarrow> i32" where
  "flash_erased i = - 1"

text \<open>A machine about to run Timer mode with the given period.\<close>

definition timer_world :: "i32 \<Rightarrow> world" where
  "timer_world p = (power_on flash_erased (\<lambda>n. 400))\<lparr>state := \<lparr>iMode = MODE_TIMER, iAlert = ALERT_LED, iFreq = 30, iPeriod = p\<rparr>\<rparr>"

text \<open>The record after Button 1 has been pressed on a menu item.\<close>

definition activate :: "int \<Rightarrow> STATE \<Rightarrow> STATE" where
  "activate iSelItem st = snd (menu_action iSelItem st)"

text \<open>A machine about to run Stealth mode with the given update time and a constant reading.\<close>

definition stealth_world :: "i32 \<Rightarrow> int \<Rightarrow> world" where
  "stealth_world f co2 =
     (power_on flash_erased (\<lambda>n. co2))\<lparr>state := \<lparr>iMode = MODE_STEALTH, iAlert = ALERT_LED, iFreq = f, iPeriod = 5\<rparr>\<rparr>"

text \<open>
  Button readings of a user who moves from Start to Mode, presses Button 1
  once, moves on to Start and presses Button 1; and of a user who presses
  Button 1 on Start at once.
\<close>

definition change_mode_and_start :: "pins list" where
  "change_mode_and_start =
     [btn_none, btn_0, btn_0, btn_none, btn_1, btn_1, btn_none, btn_0, btn_0, btn_none, btn_0, btn_0,
      btn_none, btn_0, btn_0, btn_none, btn_0, btn_0, btn_none, btn_1, btn_1]"

definition start_at_once :: "pins list" where
  "start_at_once = [btn_none, btn_1, btn_1]"

text \<open>
  The events of an uninterrupted countdown from \<open>i\<close> in \<open>RunCalibrate\<close>: the
  time, then one second of delay, for \<open>i, \<dots>, 0\<close>.
\<close>

definition countdown_events :: "int \<Rightarrow> event list" where
  "countdown_events i =
     concat (map (\<lambda>k. [oledWriteStringCustom (time_string k), Delay_Ms 1000]) (rev [0..i]))"

text \<open>The text \<open>RunCalibrate\<close> shows first.\<close>

definition calibrate_prompt :: "event list" where
  "calibrate_prompt =
     [oledFill,
      oledWriteString 10 0 ''Calibrate'',
      oledWriteString 0 16 ''Place device in a'',
      oledWriteString 0 24 ''free air environment.'',
      oledWriteString 0 32 ''Press either button'',
      oledWriteString 0 40 ''to start. When timer'',
      oledWriteString 0 48 ''finishes, result will'',
      oledWriteString 0 56 ''show success or fail'']"

definition is_second :: "event \<Rightarrow> bool" where
  "is_second e = (e = Delay_Ms 1000)"

text \<open>A machine about to run Calibrate mode.\<close>

definition calibrate_world :: world where
  "calibrate_world =
     (power_on flash_erased (\<lambda>n. 400))\<lparr>state := \<lparr>iMode = MODE_CALIBRATE, iAlert = ALERT_LED, iFreq = 30, iPeriod = 5\<rparr>\<rparr>"

text \<open>
  The banner \<open>main\<close> shows before it enters a mode, and the condition under
  which its chain of tests arrives at the last \<open>else\<close>, the continuous mode.
\<close>

definition banner :: "world \<Rightarrow> world" where
  "banner w =
     emit (oledWriteString 0 8 ''Starting...'')
       (emit (oledWriteString 0 0 (szMode (iMode (state w)))) (emit oledFill w))"

definition reaches_continuous :: "world \<Rightarrow> bool" where
  "reaches_continuous w =
     (\<not> iMode (state w) = MODE_TIMER \<and> \<not> iMode (state w) = MODE_CALIBRATE \<and>
      \<not> iMode (state w) = MODE_LOW_POWER \<and> \<not> iMode (state w) = MODE_STEALTH)"

text \<open>A machine holding the default settings.\<close>

definition default_world :: world where
  "default_world = (power_on flash_erased (\<lambda>n. 400))\<lparr>state := default_state\<rparr>"

text \<open>
  Button readings of a user who starts the calibration with Button 1, leaves
  the buttons alone for 211 readings and then presses Button 1.
\<close>

definition calibration_input :: "pins list" where
  "calibration_input = btn_none # btn_1 # replicate 211 btn_none @ [btn_1]"

text \<open>What \<open>RunCalibrate\<close> does after an uninterrupted countdown, up to its last prompt.\<close>

definition calibrate_finish :: "int \<Rightarrow> int \<Rightarrow> event list" where
  "calibrate_finish SCD_SUCCESS result =
     [oledClearLine 24, oledClearLine 32, oledClearLine 40, oledClearLine 48,
      scd41_stop,
      scd41_recalibrate 423,
      oledWriteString 0 32 (if result = SCD_SUCCESS then ''Success!'' else ''Failed''),
      oledWriteString 0 56 ''Press button to exit'']"

text \<open>The records the menu can produce from the defaults.\<close>

definition menu_values :: "STATE \<Rightarrow> bool" where
  "menu_values st =
     (enumerated_mode (iMode st) \<and>
      (iAlert st = ALERT_VIBRATION \<or> iAlert st = ALERT_LED \<or> iAlert st = ALERT_BOTH) \<and>
      (iFreq st = 15 \<or> iFreq st = 30 \<or> iFreq st = 45 \<or> iFreq st = 60) \<and>
      (iPeriod st = 5 \<or> iPeriod st = 10 \<or> iPeriod st = 15 \<or> iPeriod st = 20 \<or>
       iPeriod st = 25 \<or> iPeriod st = 30 \<or> iPeriod st = 35 \<or> iPeriod st = 40 \<or>
       iPeriod st = 45 \<or> iPeriod st = 50 \<or> iPeriod st = 55 \<or> iPeriod st = 60))"





text \<open>The text \<open>RunStealth\<close> shows first.\<close>

definition stealth_prompt :: "event list" where
  "stealth_prompt =
     [oledFill,
      oledWriteString 22 0 ''Stealth'',
      oledWriteString 0 16 ''CO2 measurements will'',
      oledWriteString 0 24 ''be converted to 1-6'',
      oledWriteString 0 32 ''pulses. 1=good, 6=bad'',
      oledWriteString 0 56 ''press button to start'']"

text \<open>
  The events of the passes of the Stealth loop: the pass at tick \<open>i\<close> of the
  update period waits 250 ms, and every twentieth one then takes a sample.
  \<open>passes_events c m\<close> are the events of the \<open>m\<close> passes from tick \<open>c\<close> on.
\<close>

definition pass_events :: "nat \<Rightarrow> event list" where
  "pass_events i = (if i mod 20 = 19 then [Delay_Ms 250, scd41_getSample] else [Delay_Ms 250])"

definition passes_events :: "nat \<Rightarrow> nat \<Rightarrow> event list" where
  "passes_events c m = concat (map pass_events [c..<c + m])"

text \<open>
  The events of one update cycle of Stealth mode, for an update time of \<open>5 k\<close>
  seconds, that is a period of \<open>20 k\<close> ticks of a quarter second.  The cycle
  starts at tick \<open>c\<close> of the period (the pulses of the cycle before were
  counted as two ticks each) and is made of the passes up to the last tick of
  the period, where a sample is taken, and of \<open>L\<close> pulses after them.
\<close>

definition cycle_events :: "nat \<Rightarrow> nat \<Rightarrow> nat \<Rightarrow> event list" where
  "cycle_events k c L = passes_events c (20 * k - c) @ concat (replicate L pulse)"

text \<open>
  A Stealth session given as the button readings of its loop: one list for
  each complete update cycle, and the readings \<open>part\<close> of the passes after
  the last complete cycle; the sensor delivers \<open>sens\<close>, and \<open>s\<close> samples were
  taken before.  A cycle has one reading for each of its passes, none with
  both buttons; its level is that of the sample of its last pass, the \<open>k\<close>-th
  of the cycle; the next cycle starts two ticks into the period for each
  pulse.  The passes after the last cycle do not reach the end of the period.
\<close>

fun cycles_fit :: "nat \<Rightarrow> (nat \<Rightarrow> int) \<Rightarrow> nat \<Rightarrow> nat \<Rightarrow> pins list list \<Rightarrow> pins list \<Rightarrow> bool" where
  "cycles_fit k sens c s [] part =
     (c + length part < 20 * k \<and> list_all (\<lambda>b. GetButtons b \<noteq> 3) part)"
| "cycles_fit k sens c s (cs # css) part =
     (length cs + c = 20 * k \<and> list_all (\<lambda>b. GetButtons b \<noteq> 3) cs \<and>
      cycles_fit k sens (2 * nat (stealth_level (sens (s + k - 1)))) (s + k) css part)"

text \<open>The events of the loop in such a session, up to the reading that ends it.\<close>

fun cycles_events :: "nat \<Rightarrow> (nat \<Rightarrow> int) \<Rightarrow> nat \<Rightarrow> nat \<Rightarrow> pins list list \<Rightarrow> pins list \<Rightarrow> event list" where
  "cycles_events k sens c s [] part = passes_events c (length part)"
| "cycles_events k sens c s (cs # css) part =
     cycle_events k c (nat (stealth_level (sens (s + k - 1)))) @
     cycles_events k sens (2 * nat (stealth_level (sens (s + k - 1)))) (s + k) css part"

text \<open>The levels of the complete cycles of such a session, in order.\<close>

fun cycles_levels :: "nat \<Rightarrow> (nat \<Rightarrow> int) \<Rightarrow> nat \<Rightarrow> pins list list \<Rightarrow> int list" where
  "cycles_levels k sens s [] = []"
| "cycles_levels k sens s (cs # css) =
     stealth_level (sens (s + k - 1)) # cycles_levels k sens (s + k) css"

text \<open>
  The lengths of the runs of pulses in a trace: a run goes on through the
  events of its pulses and ends at any other event; \<open>n\<close> pulses of the
  current run were seen before.
\<close>

fun pulse_runs :: "nat \<Rightarrow> event list \<Rightarrow> nat list" where
  "pulse_runs n [] = (if n = 0 then [] else [n])"
| "pulse_runs n (e # es) =
     (if e = digitalWrite MOTOR_PIN True then pulse_runs (Suc n) es
      else if e = Delay_Ms 100 \<or> e = digitalWrite MOTOR_PIN False \<or> e = Delay_Ms 395
        then pulse_runs n es
      else (if n = 0 then [] else [n]) @ pulse_runs 0 es)"

text \<open>
  The sensor of the examples of Stealth mode: the \<open>n\<close>-th sample reads
  \<open>250 n\<close> ppm.
\<close>

definition rising_world :: "i32 \<Rightarrow> world" where
  "rising_world f = (stealth_world f 0)\<lparr>sensor := (\<lambda>n. 250 * int n)\<rparr>"

section \<open>ConfigStore: loading repairs an invalid record\<close>

lemma upt_4: "[0..<state_words] = [0, 1, 2, 3]"
  by (simp add: state_words_def upt_rec)

lemma ReadFlash_copy:
  "fold (\<lambda>i s. set_word i (f i) s) [0..<state_words] s = persisted f"
  by (simp add: upt_4 set_word_def persisted_def)

lemma WriteFlash_flash:
  "persisted (flash (WriteFlash w)) = state w"
  by (simp add: WriteFlash_def Let_def upt_4 get_word_def persisted_def emit_def)

lemma WriteFlash_state: "state (WriteFlash w) = state w"
  by (simp add: WriteFlash_def Let_def emit_def)

lemma WriteFlash_trace:
  "trace (WriteFlash w) =
     trace w @ [FLASH_ErasePage_Fast,
                FLASH_ProgramPage_Fast [iMode (state w), iAlert (state w), iFreq (state w), iPeriod (state w)]]"
  by (simp add: WriteFlash_def Let_def upt_4 get_word_def emit_def)

lemma ReadFlash_valid:
  assumes "5 \<le> sint (flash w 3)" "sint (flash w 3) \<le> 60"
  shows "ReadFlash w = w\<lparr>state := persisted (flash w)\<rparr>"
  using assms
  by (simp add: ReadFlash_def Let_def ReadFlash_copy persisted_def word_sless_alt)

lemma ReadFlash_invalid:
  assumes "\<not> (5 \<le> sint (flash w 3) \<and> sint (flash w 3) \<le> 60)"
  shows "ReadFlash w = WriteFlash (w\<lparr>state := default_state\<rparr>)"
  using assms
  by (auto simp add: ReadFlash_def Let_def ReadFlash_copy persisted_def word_sless_alt
      default_state_def ALERT_VIBRATION_def)

lemma state_update_id: "state v = s \<Longrightarrow> v\<lparr>state := s\<rparr> = v"
  by auto

lemma default_period: "sint (iPeriod default_state) = 5"
  by (simp add: default_state_def)

lemma ReadFlash_idem: "ReadFlash (ReadFlash w) = ReadFlash w"
proof (cases "5 \<le> sint (flash w 3) \<and> sint (flash w 3) \<le> 60")
  case True
  then have 1: "ReadFlash w = w\<lparr>state := persisted (flash w)\<rparr>"
    by (simp add: ReadFlash_valid)
  have "ReadFlash (w\<lparr>state := persisted (flash w)\<rparr>) = w\<lparr>state := persisted (flash w)\<rparr>"
    using True by (subst ReadFlash_valid) simp_all
  with 1 show ?thesis by simp
next
  case False
  let ?v = "WriteFlash (w\<lparr>state := default_state\<rparr>)"
  have 1: "ReadFlash w = ?v"
    using False by (rule ReadFlash_invalid)
  have p: "persisted (flash ?v) = default_state"
    by (simp add: WriteFlash_flash)
  then have "flash ?v 3 = iPeriod default_state"
    by (simp add: persisted_def default_state_def)
  then have "5 \<le> sint (flash ?v 3)" "sint (flash ?v 3) \<le> 60"
    by (simp_all add: default_period)
  then have "ReadFlash ?v = ?v\<lparr>state := persisted (flash ?v)\<rparr>"
    by (rule ReadFlash_valid)
  also have "\<dots> = ?v"
    by (simp add: p state_update_id WriteFlash_state)
  finally show ?thesis using 1 by simp
qed

text \<open>
  Claim C1.  \<open>ReadFlash\<close> keeps a persisted record whose \<open>iPeriod\<close> lies in
  \<open>[5,60]\<close> as it is, without writing.  For every other record it leaves the
  defaults (Continuous, Vibration, 30, 5) in \<open>state\<close>, writes them to FLASH at
  once with a single page programming, and loading again gives the same
  machine: the same defaults and no further write.
\<close>

theorem ReadFlash_self_healing:
  "(5 \<le> sint (flash w 3) \<and> sint (flash w 3) \<le> 60 \<longrightarrow>
      ReadFlash w = w\<lparr>state := persisted (flash w)\<rparr>) \<and>
   (\<not> (5 \<le> sint (flash w 3) \<and> sint (flash w 3) \<le> 60) \<longrightarrow>
      state (ReadFlash w) = default_state \<and>
      persisted (flash (ReadFlash w)) = default_state \<and>
      added w (ReadFlash w) = [FLASH_ErasePage_Fast, FLASH_ProgramPage_Fast [0, 0, 30, 5]] \<and>
      calls is_program (added w (ReadFlash w)) = 1) \<and>
   ReadFlash (ReadFlash w) = ReadFlash w"
proof (intro conjI impI)
  assume "5 \<le> sint (flash w 3) \<and> sint (flash w 3) \<le> 60"
  then show "ReadFlash w = w\<lparr>state := persisted (flash w)\<rparr>"
    by (simp add: ReadFlash_valid)
next
  assume inv: "\<not> (5 \<le> sint (flash w 3) \<and> sint (flash w 3) \<le> 60)"
  have 1: "ReadFlash w = WriteFlash (w\<lparr>state := default_state\<rparr>)"
    using inv by (rule ReadFlash_invalid)
  show "state (ReadFlash w) = default_state"
    by (simp add: 1 WriteFlash_state)
  show "persisted (flash (ReadFlash w)) = default_state"
    by (simp add: 1 WriteFlash_flash)
  show a: "added w (ReadFlash w) = [FLASH_ErasePage_Fast, FLASH_ProgramPage_Fast [0, 0, 30, 5]]"
    by (simp add: 1 added_def WriteFlash_trace default_state_def MODE_CONTINUOUS_def
        ALERT_VIBRATION_def)
  show "calls is_program (added w (ReadFlash w)) = 1"
    by (simp add: a calls_def is_program_def)
next
  show "ReadFlash (ReadFlash w) = ReadFlash w"
    by (rule ReadFlash_idem)
qed

theorem ReadFlash_self_healing_witness:
  "\<not> (5 \<le> sint (flash (power_on flash_erased (\<lambda>n. 400)) 3) \<and>
       sint (flash (power_on flash_erased (\<lambda>n. 400)) 3) \<le> 60) \<and>
   state (ReadFlash (power_on flash_erased (\<lambda>n. 400))) = default_state \<and>
   calls is_program (added (power_on flash_erased (\<lambda>n. 400))
                          (ReadFlash (power_on flash_erased (\<lambda>n. 400)))) = 1 \<and>
   (5 \<le> sint (flash (power_on (flash_of \<lparr>iMode = 2, iAlert = 1, iFreq = 45, iPeriod = 10\<rparr>) (\<lambda>n. 400)) 3) \<and>
    sint (flash (power_on (flash_of \<lparr>iMode = 2, iAlert = 1, iFreq = 45, iPeriod = 10\<rparr>) (\<lambda>n. 400)) 3) \<le> 60) \<and>
   state (ReadFlash (power_on (flash_of \<lparr>iMode = 2, iAlert = 1, iFreq = 45, iPeriod = 10\<rparr>) (\<lambda>n. 400)))
     = \<lparr>iMode = 2, iAlert = 1, iFreq = 45, iPeriod = 10\<rparr>"
proof -
  let ?e = "power_on flash_erased (\<lambda>n. 400)"
  let ?v = "power_on (flash_of \<lparr>iMode = 2, iAlert = 1, iFreq = 45, iPeriod = 10\<rparr>) (\<lambda>n. 400)"
  have e: "sint (flash ?e 3) = - 1"
    by (simp add: power_on_def flash_erased_def)
  have v: "sint (flash ?v 3) = 10"
    by (simp add: power_on_def flash_of_def get_word_def)
  have p: "persisted (flash ?v) = \<lparr>iMode = 2, iAlert = 1, iFreq = 45, iPeriod = 10\<rparr>"
    by (simp add: power_on_def flash_of_def get_word_def persisted_def)
  show ?thesis
    using ReadFlash_self_healing [of ?e] ReadFlash_self_healing [of ?v]
    by (simp add: e v p calls_def is_program_def)
qed

section \<open>Traces of the basic operations\<close>

lemma emit_simps [simp]:
  "trace (emit e w) = trace w @ [e]"
  "state (emit e w) = state w"
  "flash (emit e w) = flash w"
  "iCO2 (emit e w) = iCO2 w"
  "iSample (emit e w) = iSample w"
  "sensor (emit e w) = sensor w"
  "nsamp (emit e w) = nsamp w"
  by (simp_all add: emit_def)

lemma added_append: "trace w' = trace w @ t \<Longrightarrow> added w w' = t"
  by (simp add: added_def)

lemma BlinkLED_simps [simp]:
  "trace (BlinkLED l d w) = trace w @ [digitalWrite l True, Delay_Ms d, digitalWrite l False]"
  "state (BlinkLED l d w) = state w"
  "flash (BlinkLED l d w) = flash w"
  "iCO2 (BlinkLED l d w) = iCO2 w"
  by (simp_all add: BlinkLED_def Let_def)

lemma Vibrate_simps [simp]:
  "trace (Vibrate d w) = trace w @ [digitalWrite MOTOR_PIN True, Delay_Ms d, digitalWrite MOTOR_PIN False]"
  "state (Vibrate d w) = state w"
  "flash (Vibrate d w) = flash w"
  by (simp_all add: Vibrate_def Let_def)

lemma ShowTime_simps [simp]:
  "trace (ShowTime i w) = trace w @ [oledWriteStringCustom (time_string i)]"
  "state (ShowTime i w) = state w"
  "flash (ShowTime i w) = flash w"
  by (simp_all add: ShowTime_def)

lemma ShowAlert_trace:
  "\<exists>t. trace (ShowAlert w) = trace w @ Call_ShowAlert # t \<and> (\<forall>e\<in>set t. untracked e)"
  by (simp add: ShowAlert_def Let_def eval_nat_numeral untracked_def)

lemma ShowAlert_state [simp]: "state (ShowAlert w) = state w" "flash (ShowAlert w) = flash w"
  by (simp_all add: ShowAlert_def Let_def eval_nat_numeral)

lemma timer_tick_trace:
  "\<exists>t. trace (snd (timer_tick i j k w)) = trace w @ t \<and> (\<forall>e\<in>set t. untracked e)"
  by (simp add: timer_tick_def Let_def untracked_def split: prod.splits)

lemma timer_tick_state [simp]:
  "state (snd (timer_tick i j k w)) = state w"
  "flash (snd (timer_tick i j k w)) = flash w"
  by (simp_all add: timer_tick_def Let_def split: prod.splits)

section \<open>The countdown of Timer mode\<close>

lemma shown_simps [simp]:
  "shown [] = []"
  "shown (a @ b) = shown a @ shown b"
  "shown (e # b) = time_of e @ shown b"
  by (simp_all add: shown_def)

lemma time_of_time [simp]: "time_of (oledWriteStringCustom s) = [s]"
  by (simp add: time_of_def)

lemma untracked_time_of: "untracked e \<Longrightarrow> time_of e = []"
  by (cases e) (simp_all add: untracked_def time_of_def)

lemma shown_untracked: "\<forall>e\<in>set t. untracked e \<Longrightarrow> shown t = []"
  by (induction t) (simp_all add: untracked_time_of)

lemma calls_simps [simp]:
  "calls P [] = 0"
  "calls P (a @ b) = calls P a + calls P b"
  "calls P (e # b) = (if P e then 1 else 0) + calls P b"
  by (simp_all add: calls_def)

lemma calls_none: "\<forall>e\<in>set t. \<not> P e \<Longrightarrow> calls P t = 0"
  by (induction t) simp_all

lemma untracked_not [simp]:
  "untracked e \<Longrightarrow> \<not> is_alert e"
  "untracked e \<Longrightarrow> \<not> is_start e"
  "untracked e \<Longrightarrow> \<not> is_stop e"
  "untracked e \<Longrightarrow> \<not> is_program e"
  "untracked e \<Longrightarrow> \<not> is_time e"
  by (cases e; simp add: untracked_def is_alert_def is_start_def is_stop_def is_program_def is_time_def)+

lemma is_time_not [simp]:
  "is_time e \<Longrightarrow> \<not> is_alert e"
  "is_time e \<Longrightarrow> \<not> is_start e"
  "is_time e \<Longrightarrow> \<not> is_stop e"
  "is_time e \<Longrightarrow> \<not> is_program e"
  by (cases e; simp add: is_time_def is_alert_def is_start_def is_stop_def is_program_def)+

lemma timer_loop_neg: "i < 0 \<Longrightarrow> timer_loop i k bs w = Some (False, w, bs)"
  by (cases bs) simp_all

lemma rev_upto: "a \<le> i \<Longrightarrow> rev [a..i] = i # rev [a..i - 1]"
  by (simp add: upto_rec2)

lemma timer_loop_run:
  assumes "0 \<le> i" "nat i < length bs" "\<forall>b\<in>set (take (nat i + 1) bs). GetButtons b \<noteq> 3"
  shows "\<exists>w' t. timer_loop i k bs w = Some (False, w', drop (nat i + 1) bs) \<and>
           trace w' = trace w @ t \<and> shown t = map time_string (rev [0..i]) \<and>
           (\<forall>e\<in>set t. untracked e \<or> is_time e) \<and> state w' = state w \<and> flash w' = flash w"
  using assms
proof (induction bs arbitrary: i k w)
  case Nil
  then show ?case by simp
next
  case (Cons p ps)
  from Cons.prems have np: "GetButtons p \<noteq> 3" by simp
  obtain k' w2 where tt: "timer_tick i (GetButtons p) k (ShowTime i w) = (k', w2)"
    by force
  from timer_tick_trace [of i "GetButtons p" k "ShowTime i w"] tt
  obtain t2 where t2: "trace w2 = trace w @ oledWriteStringCustom (time_string i) # t2"
      "\<forall>e\<in>set t2. untracked e"
    by auto
  from timer_tick_state [of i "GetButtons p" k "ShowTime i w"] tt
  have s2: "state w2 = state w" "flash w2 = flash w" by simp_all
  have step: "timer_loop i k (p # ps) w = timer_loop (i - 1) k' ps w2"
    using Cons.prems(1) np tt by (simp add: Let_def)
  show ?case
  proof (cases "i = 0")
    case True
    then have "timer_loop (i - 1) k' ps w2 = Some (False, w2, ps)"
      by (simp add: timer_loop_neg)
    with step True t2 s2 show ?thesis
      by (simp add: shown_untracked is_time_def)
  next
    case False
    with Cons.prems have pos: "0 \<le> i - 1" "nat (i - 1) < length ps" by auto
    have eq: "nat (i - 1) + 1 = nat i" using False Cons.prems(1) by simp
    from Cons.prems(3) have "\<forall>b\<in>set (take (nat i) ps). GetButtons b \<noteq> 3" 
      by simp
    then have nq: "\<forall>b\<in>set (take (nat (i - 1) + 1) ps). GetButtons b \<noteq> 3"
      by (simp only: eq)
    from Cons.IH [OF pos nq, of k' w2]
    obtain w' t where r: "timer_loop (i - 1) k' ps w2 = Some (False, w', drop (nat (i - 1) + 1) ps)"
      "trace w' = trace w2 @ t" "shown t = map time_string (rev [0..i - 1])"
      "\<forall>e\<in>set t. untracked e \<or> is_time e" "state w' = state w2" "flash w' = flash w2"
      by blast
    have d: "drop (nat (i - 1) + 1) ps = drop (nat i + 1) (p # ps)"
      by (simp only: eq) simp
    have "shown (oledWriteStringCustom (time_string i) # t2 @ t) = map time_string (rev [0..i])"
      using r(3) t2(2) Cons.prems(1) by (simp add: shown_untracked rev_upto)
    moreover have "\<forall>e\<in>set (oledWriteStringCustom (time_string i) # t2 @ t). untracked e \<or> is_time e"
      using r(4) t2(2) by (auto simp: is_time_def)
    moreover have "trace w' = trace w @ (oledWriteStringCustom (time_string i) # t2 @ t)"
      using r(2) t2(1) by simp
    ultimately show ?thesis
      using step r(1) r(5) r(6) s2 d by metis
  qed
qed

lemma timer_loop_quit:
  assumes "n < length bs" "int n \<le> i" "GetButtons (bs ! n) = 3" "\<forall>m<n. GetButtons (bs ! m) \<noteq> 3"
  shows "\<exists>w' t. timer_loop i k bs w = Some (True, w', drop (n + 1) bs) \<and>
           trace w' = trace w @ t \<and> shown t = map time_string (rev [i - int n..i]) \<and>
           (\<forall>e\<in>set t. untracked e \<or> is_time e) \<and> state w' = state w \<and> flash w' = flash w"
  using assms
proof (induction n arbitrary: bs i k w)
  case 0
  then obtain p ps where bs: "bs = p # ps" by (cases bs) auto
  with 0 have "timer_loop i k bs w = Some (True, ShowTime i w, ps)"
    by (simp add: Let_def)
  with bs show ?case by (simp add: is_time_def)
next
  case (Suc n)
  then obtain p ps where bs: "bs = p # ps" by (cases bs) auto
  from Suc.prems bs have np: "GetButtons p \<noteq> 3" by auto
  from Suc.prems have i0: "0 \<le> i" by simp
  obtain k' w2 where tt: "timer_tick i (GetButtons p) k (ShowTime i w) = (k', w2)"
    by force
  from timer_tick_trace [of i "GetButtons p" k "ShowTime i w"] tt
  obtain t2 where t2: "trace w2 = trace w @ oledWriteStringCustom (time_string i) # t2"
      "\<forall>e\<in>set t2. untracked e"
    by auto
  from timer_tick_state [of i "GetButtons p" k "ShowTime i w"] tt
  have s2: "state w2 = state w" "flash w2 = flash w" by simp_all
  have step: "timer_loop i k bs w = timer_loop (i - 1) k' ps w2"
    using i0 np tt bs by (simp add: Let_def)
  have a: "n < length ps" "int n \<le> i - 1" "GetButtons (ps ! n) = 3"
    using Suc.prems bs by auto
  have b: "\<forall>m<n. GetButtons (ps ! m) \<noteq> 3"
    using Suc.prems(4) bs by auto
  from Suc.IH [OF a b, of k' w2]
  obtain w' t where r: "timer_loop (i - 1) k' ps w2 = Some (True, w', drop (n + 1) ps)"
      "trace w' = trace w2 @ t" "shown t = map time_string (rev [i - 1 - int n..i - 1])"
      "\<forall>e\<in>set t. untracked e \<or> is_time e" "state w' = state w2" "flash w' = flash w2"
    by blast
  have d: "drop (n + 1) ps = drop (Suc n + 1) bs"
    using bs by simp
  have u: "rev [i - int (Suc n)..i] = i # rev [i - 1 - int n..i - 1]"
    using rev_upto [of "i - int (Suc n)" i] by (simp add: algebra_simps)
  have "shown (oledWriteStringCustom (time_string i) # t2 @ t) = time_string i # shown t"
    using t2(2) by (simp add: shown_untracked)
  then have "shown (oledWriteStringCustom (time_string i) # t2 @ t) = map time_string (rev [i - int (Suc n)..i])"
    by (simp only: r(3) u list.map)
  moreover have "\<forall>e\<in>set (oledWriteStringCustom (time_string i) # t2 @ t). untracked e \<or> is_time e"
    using r(4) t2(2) by (auto simp: is_time_def)
  moreover have "trace w' = trace w @ (oledWriteStringCustom (time_string i) # t2 @ t)"
    using r(2) t2(1) by simp
  ultimately show ?case
    using step r(1) r(5) r(6) s2 d by metis
qed

lemma sint_times_60:
  assumes "0 \<le> sint (p :: i32)" "sint p * 60 < 2 ^ 31"
  shows "sint (p * 60) = sint p * 60"
proof -
  have "sint (p * 60) = signed_take_bit 31 (sint p * 60)"
    by (simp add: sint_word_ariths)
  also have "\<dots> = sint p * 60"
    using assms by (intro signed_take_bit_int_eq_self) auto
  finally show ?thesis .
qed

lemma calls_tracked: "\<forall>e\<in>set t. untracked e \<or> is_time e \<Longrightarrow> calls is_alert t = 0"
  by (rule calls_none) auto

lemma timer_loop_events:
  "timer_loop i k bs w = Some (r, w', bs') \<Longrightarrow>
     \<exists>t. trace w' = trace w @ t \<and> (\<forall>e\<in>set t. untracked e \<or> is_time e) \<and>
         (0 \<le> i \<longrightarrow> (\<exists>t'. t = oledWriteStringCustom (time_string i) # t'))"
proof (induction bs arbitrary: i k w)
  case Nil
  then show ?case by (simp split: if_splits)
next
  case (Cons p ps)
  show ?case
  proof (cases "0 \<le> i")
    case False
    with Cons.prems show ?thesis by simp
  next
    case True
    show ?thesis
    proof (cases "GetButtons p = 3")
      case True
      with \<open>0 \<le> i\<close> Cons.prems show ?thesis
        by (auto simp: Let_def is_time_def)
    next
      case False
      obtain k' w2 where tt: "timer_tick i (GetButtons p) k (ShowTime i w) = (k', w2)"
        by force
      from timer_tick_trace [of i "GetButtons p" k "ShowTime i w"] tt
      obtain t2 where t2: "trace w2 = trace w @ oledWriteStringCustom (time_string i) # t2"
        "\<forall>e\<in>set t2. untracked e"
        by auto
      have "timer_loop (i - 1) k' ps w2 = Some (r, w', bs')"
        using Cons.prems \<open>0 \<le> i\<close> False tt by (simp add: Let_def)
      from Cons.IH [OF this] obtain t where
        t: "trace w' = trace w2 @ t" "\<forall>e\<in>set t. untracked e \<or> is_time e"
        by blast
      have "trace w' = trace w @ (oledWriteStringCustom (time_string i) # t2 @ t)"
        using t(1) t2(1) by simp
      moreover have "\<forall>e\<in>set (oledWriteStringCustom (time_string i) # t2 @ t). untracked e \<or> is_time e"
        using t(2) t2(2) by (auto simp: is_time_def)
      ultimately show ?thesis by blast
    qed
  qed
qed

lemma RunTimer_run:
  assumes "0 \<le> sint (iPeriod (state w))" "sint (iPeriod (state w)) * 60 < 2 ^ 31"
    and "n = sint (iPeriod (state w)) * 60"
    and "nat n < length bs" "\<forall>b\<in>set (take (nat n + 1) bs). GetButtons b \<noteq> 3"
  shows "\<exists>w1 t. RunTimer bs w = Some (ShowAlert w1, drop (nat n + 1) bs) \<and>
           trace w1 = trace w @ t \<and> shown t = map time_string (rev [0..n]) \<and>
           (\<forall>e\<in>set t. untracked e \<or> is_time e)"
proof -
  let ?w0 = "emit (oledWriteString 0 0 ''Timer Mode'') (emit oledFill w)"
  have n: "sint (iPeriod (state ?w0) * 60) = n" "0 \<le> n"
    using assms(1-3) by (simp_all add: sint_times_60)
  from timer_loop_run [OF n(2) assms(4) assms(5), of 5 ?w0]
  obtain w' t where r: "timer_loop n 5 bs ?w0 = Some (False, w', drop (nat n + 1) bs)"
    "trace w' = trace ?w0 @ t" "shown t = map time_string (rev [0..n])"
    "\<forall>e\<in>set t. untracked e \<or> is_time e"
    by blast
  have "RunTimer bs w = Some (ShowAlert w', drop (nat n + 1) bs)"
    using r(1) n(1) by (simp add: RunTimer_def Let_def)
  moreover have "trace w' = trace w @ (oledFill # oledWriteString 0 0 ''Timer Mode'' # t)"
    using r(2) by simp
  moreover have "shown (oledFill # oledWriteString 0 0 ''Timer Mode'' # t) = map time_string (rev [0..n])"
    using r(3) by (simp add: time_of_def)
  moreover have "\<forall>e\<in>set (oledFill # oledWriteString 0 0 ''Timer Mode'' # t). untracked e \<or> is_time e"
    using r(4) by (simp add: untracked_def)
  ultimately show ?thesis by blast
qed

lemma RunTimer_quit:
  assumes "0 \<le> sint (iPeriod (state w))" "sint (iPeriod (state w)) * 60 < 2 ^ 31"
    and "n = sint (iPeriod (state w)) * 60"
    and "m < length bs" "int m \<le> n" "GetButtons (bs ! m) = 3" "\<forall>l<m. GetButtons (bs ! l) \<noteq> 3"
  shows "\<exists>w' t. RunTimer bs w = Some (w', drop (m + 1) bs) \<and>
           trace w' = trace w @ t \<and> shown t = map time_string (rev [n - int m..n]) \<and>
           (\<forall>e\<in>set t. untracked e \<or> is_time e)"
proof -
  let ?w0 = "emit (oledWriteString 0 0 ''Timer Mode'') (emit oledFill w)"
  have n: "sint (iPeriod (state ?w0) * 60) = n"
    using assms(1-3) by (simp_all add: sint_times_60)
  from timer_loop_quit [OF assms(4-7), of 5 ?w0]
  obtain w' t where r: "timer_loop n 5 bs ?w0 = Some (True, w', drop (m + 1) bs)"
    "trace w' = trace ?w0 @ t" "shown t = map time_string (rev [n - int m..n])"
    "\<forall>e\<in>set t. untracked e \<or> is_time e"
    by blast
  have "RunTimer bs w = Some (w', drop (m + 1) bs)"
    using r(1) n by (simp add: RunTimer_def Let_def)
  moreover have "trace w' = trace w @ (oledFill # oledWriteString 0 0 ''Timer Mode'' # t)"
    using r(2) by simp
  moreover have "shown (oledFill # oledWriteString 0 0 ''Timer Mode'' # t) = map time_string (rev [n - int m..n])"
    using r(3) by (simp add: time_of_def)
  moreover have "\<forall>e\<in>set (oledFill # oledWriteString 0 0 ''Timer Mode'' # t). untracked e \<or> is_time e"
    using r(4) by (simp add: untracked_def)
  ultimately show ?thesis by blast
qed

lemma RunTimer_events:
  assumes "RunTimer bs w = Some (w', bs')"
  shows "\<exists>t. trace w' = trace w @ t \<and> (\<forall>e\<in>set t. untracked e \<or> is_time e \<or> is_alert e) \<and>
           (0 \<le> sint (iPeriod (state w) * 60) \<longrightarrow>
              (\<exists>t'. t = oledFill # oledWriteString 0 0 ''Timer Mode'' #
                      oledWriteStringCustom (time_string (sint (iPeriod (state w) * 60))) # t'))"
proof -
  let ?w0 = "emit (oledWriteString 0 0 ''Timer Mode'') (emit oledFill w)"
  let ?i = "sint (iPeriod (state w) * 60)"
  from assms obtain r w1 where l: "timer_loop ?i 5 bs ?w0 = Some (r, w1, bs')"
    and w': "w' = (if r then w1 else ShowAlert w1)"
    by (auto simp: RunTimer_def Let_def split: option.splits if_splits)
  from timer_loop_events [OF l] obtain t where
    t: "trace w1 = trace ?w0 @ t" "\<forall>e\<in>set t. untracked e \<or> is_time e"
       "0 \<le> ?i \<longrightarrow> (\<exists>t'. t = oledWriteStringCustom (time_string ?i) # t')"
    by blast
  from ShowAlert_trace [of w1] obtain ta where
    ta: "trace (ShowAlert w1) = trace w1 @ Call_ShowAlert # ta" "\<forall>e\<in>set ta. untracked e"
    by blast
  let ?t = "oledFill # oledWriteString 0 0 ''Timer Mode'' # t @ (if r then [] else Call_ShowAlert # ta)"
  have "trace w' = trace w @ ?t"
    using w' t(1) ta(1) by simp
  moreover have "\<forall>e\<in>set ?t. untracked e \<or> is_time e \<or> is_alert e"
    using t(2) ta(2) by (auto simp: untracked_def is_alert_def)
  moreover have "0 \<le> ?i \<longrightarrow> (\<exists>t'. ?t = oledFill # oledWriteString 0 0 ''Timer Mode'' #
                      oledWriteStringCustom (time_string ?i) # t')"
    using t(3) by auto
  ultimately show ?thesis by blast
qed

lemma GetButtons_simps [simp]:
  "GetButtons btn_none = 0" "GetButtons btn_0 = 1" "GetButtons btn_1 = 2" "GetButtons btn_both = 3"
  by (simp_all add: GetButtons_def btn_none_def btn_0_def btn_1_def btn_both_def)

text \<open>
  Claim C4.  With \<open>n = 60 * iPeriod\<close> seconds to count: when none of the first
  \<open>n + 1\<close> button readings shows both buttons, \<open>RunTimer\<close> displays the
  \<open>n + 1\<close> times \<open>n, \<dots>, 0\<close> (61 of them for a period of one minute), one
  per reading, and only then enters \<open>ShowAlert\<close>, once; when a reading within
  the countdown shows both buttons, it returns at that reading without ever
  entering \<open>ShowAlert\<close>.
\<close>

theorem RunTimer_countdown:
  assumes "0 \<le> sint (iPeriod (state w))" "sint (iPeriod (state w)) * 60 < 2 ^ 31"
    and "n = sint (iPeriod (state w)) * 60"
  shows "(nat n < length bs \<and> (\<forall>b\<in>set (take (nat n + 1) bs). GetButtons b \<noteq> 3) \<longrightarrow>
            (\<exists>w1. RunTimer bs w = Some (ShowAlert w1, drop (nat n + 1) bs) \<and>
                   shown (added w w1) = map time_string (rev [0..n]) \<and>
                   length (shown (added w w1)) = nat n + 1 \<and>
                   calls is_alert (added w w1) = 0 \<and>
                   shown (added w (ShowAlert w1)) = shown (added w w1) \<and>
                   calls is_alert (added w (ShowAlert w1)) = 1)) \<and>
         (\<forall>m. m < length bs \<and> int m \<le> n \<and> GetButtons (bs ! m) = 3 \<and>
               (\<forall>l<m. GetButtons (bs ! l) \<noteq> 3) \<longrightarrow>
            (\<exists>w'. RunTimer bs w = Some (w', drop (m + 1) bs) \<and>
                   shown (added w w') = map time_string (rev [n - int m..n]) \<and>
                   calls is_alert (added w w') = 0))"
proof (intro conjI allI impI)
  assume a: "nat n < length bs \<and> (\<forall>b\<in>set (take (nat n + 1) bs). GetButtons b \<noteq> 3)"
  from RunTimer_run [OF assms] a
  obtain w1 t where r: "RunTimer bs w = Some (ShowAlert w1, drop (nat n + 1) bs)"
    "trace w1 = trace w @ t" "shown t = map time_string (rev [0..n])"
    "\<forall>e\<in>set t. untracked e \<or> is_time e"
    by blast
  from ShowAlert_trace [of w1] obtain ta where
    ta: "trace (ShowAlert w1) = trace w1 @ Call_ShowAlert # ta" "\<forall>e\<in>set ta. untracked e"
    by blast
  have n0: "0 \<le> n" using assms by simp
  have 1: "added w w1 = t"
    using r(2) by (rule added_append)
  have 2: "added w (ShowAlert w1) = t @ Call_ShowAlert # ta"
    using r(2) ta(1) by (simp add: added_def)
  have 3: "calls is_alert t = 0"
    using r(4) by (rule calls_tracked)
  have 4: "calls is_alert ta = 0"
    using ta(2) by (intro calls_none) auto
  have 5: "length (shown t) = nat n + 1"
    using n0 by (simp add: r(3))
  have 6: "shown (t @ Call_ShowAlert # ta) = shown t"
    using ta(2) by (simp add: shown_untracked time_of_def)
  have 7: "calls is_alert (t @ Call_ShowAlert # ta) = 1"
    using 3 4 by (simp add: is_alert_def)
  show "\<exists>w1. RunTimer bs w = Some (ShowAlert w1, drop (nat n + 1) bs) \<and>
             shown (added w w1) = map time_string (rev [0..n]) \<and>
             length (shown (added w w1)) = nat n + 1 \<and>
             calls is_alert (added w w1) = 0 \<and>
             shown (added w (ShowAlert w1)) = shown (added w w1) \<and>
             calls is_alert (added w (ShowAlert w1)) = 1"
    using r(1) r(3) 1 2 3 5 6 7 by (intro exI [of _ w1]) simp
next
  fix m
  assume a: "m < length bs \<and> int m \<le> n \<and> GetButtons (bs ! m) = 3 \<and>
             (\<forall>l<m. GetButtons (bs ! l) \<noteq> 3)"
  from RunTimer_quit [OF assms, of m bs] a
  obtain w' t where r: "RunTimer bs w = Some (w', drop (m + 1) bs)"
    "trace w' = trace w @ t" "shown t = map time_string (rev [n - int m..n])"
    "\<forall>e\<in>set t. untracked e \<or> is_time e"
    by blast
  have 1: "added w w' = t"
    using r(2) by (rule added_append)
  have 3: "calls is_alert t = 0"
    using r(4) by (rule calls_tracked)
  show "\<exists>w'. RunTimer bs w = Some (w', drop (m + 1) bs) \<and>
             shown (added w w') = map time_string (rev [n - int m..n]) \<and>
             calls is_alert (added w w') = 0"
    using r(1) r(3) 1 3 by (intro exI [of _ w']) simp
qed

theorem RunTimer_countdown_witness:
  "(\<exists>w1. RunTimer (replicate 61 btn_none) (timer_world 1) = Some (ShowAlert w1, []) \<and>
         length (shown (added (timer_world 1) w1)) = 61 \<and>
         calls is_alert (added (timer_world 1) (ShowAlert w1)) = 1) \<and>
   (\<exists>w'. RunTimer (replicate 5 btn_none @ [btn_both] @ replicate 55 btn_none) (timer_world 1)
           = Some (w', replicate 55 btn_none) \<and>
         length (shown (added (timer_world 1) w')) = 6 \<and>
         calls is_alert (added (timer_world 1) w') = 0)"
proof -
  let ?w = "timer_world 1"
  have p: "sint (iPeriod (state ?w)) = 1"
    by (simp add: timer_world_def)
  have h: "0 \<le> sint (iPeriod (state ?w))" "sint (iPeriod (state ?w)) * 60 < 2 ^ 31"
    "(60::int) = sint (iPeriod (state ?w)) * 60"
    by (simp_all add: p)
  let ?bs = "replicate 5 btn_none @ [btn_both] @ replicate 55 btn_none"
  have q: "5 < length ?bs \<and> int 5 \<le> 60 \<and> GetButtons (?bs ! 5) = 3 \<and>
           (\<forall>l<5. GetButtons (?bs ! l) \<noteq> 3)"
    by (simp add: nth_append)
  have d: "drop (5 + 1) ?bs = replicate 55 btn_none"
    by simp
  have l: "length (map time_string (rev [60 - int 5..60])) = 6"
    by simp
  from RunTimer_countdown [OF h, of "replicate 61 btn_none"]
  have A: "\<exists>w1. RunTimer (replicate 61 btn_none) ?w = Some (ShowAlert w1, []) \<and>
         length (shown (added ?w w1)) = 61 \<and>
         calls is_alert (added ?w (ShowAlert w1)) = 1"
    by auto
  from RunTimer_countdown [OF h, of ?bs] q
  have "\<exists>w'. RunTimer ?bs ?w = Some (w', drop (5 + 1) ?bs) \<and>
         shown (added ?w w') = map time_string (rev [60 - int 5..60]) \<and>
         calls is_alert (added ?w w') = 0"
    by blast
  then have B: "\<exists>w'. RunTimer ?bs ?w = Some (w', replicate 55 btn_none) \<and>
         length (shown (added ?w w')) = 6 \<and>
         calls is_alert (added ?w w') = 0"
    unfolding d using l by metis
  from A B show ?thesis by blast
qed

section \<open>The time display\<close>

lemma digit_val_char_of: "0 \<le> d \<Longrightarrow> d \<le> 9 \<Longrightarrow> digit_val (char_of (d + 48)) = Some d"
  by (simp add: digit_val_def)

lemma digit_val_range: "digit_val c = Some d \<Longrightarrow> 0 \<le> d \<and> d \<le> 9"
  by (auto simp: digit_val_def split: if_splits)

lemma sdiv_nonneg: "0 \<le> (a::int) \<Longrightarrow> 0 < b \<Longrightarrow> a sdiv b = a div b"
  by (cases "a = 0") (simp_all add: signed_divide_int_def)

lemma smod_nonneg: "0 \<le> (a::int) \<Longrightarrow> 0 < b \<Longrightarrow> a smod b = a mod b"
  by (cases "a = 0") (simp_all add: signed_modulo_int_def)

lemma time_string_ok:
  assumes "0 \<le> i" "i < 600"
  shows "time_string i = [CHR ''0'', char_of (i div 60 + 48), CHR '':'', char_of ((i mod 60) div 10 + 48), char_of (i mod 10 + 48)]"
  using assms by (simp add: time_string_def sdiv_nonneg smod_nonneg)

lemma read_time_ok:
  assumes "0 \<le> i" "i < 600"
  shows "read_time (time_string i) = Some i"
proof -
  have m: "0 \<le> i div 60" "i div 60 \<le> 9" using assms by auto
  have t: "0 \<le> (i mod 60) div 10" "(i mod 60) div 10 \<le> 5" by auto
  have u: "0 \<le> i mod 10" "i mod 10 \<le> 9" by auto
  have e1: "i div 60 * 60 + i mod 60 = i" by simp
  have e2: "(i mod 60) div 10 * 10 + (i mod 60) mod 10 = i mod 60" by simp
  have e3: "(i mod 60) mod 10 = i mod 10" by (simp add: mod_mod_cancel)
  have e: "i div 60 * 60 + (i mod 60) div 10 * 10 + i mod 10 = i"
    using e1 e2 e3 by linarith
  show ?thesis
    unfolding time_string_ok [OF assms] read_time_def
    using m t u e by (simp add: digit_val_char_of)
qed

lemma smod_10_60: "(i::int) smod 10 = (i smod 60) smod 10"
proof -
  have a: "\<bar>i\<bar> mod 60 mod 10 = \<bar>i\<bar> mod 10" by (simp add: mod_mod_cancel)
  have b: "\<bar>sgn i * (\<bar>i\<bar> mod 60)\<bar> = \<bar>i\<bar> mod 60"
    by (cases "i = 0") (simp_all add: abs_mult abs_sgn_eq)
  have c: "sgn (sgn i * (\<bar>i\<bar> mod 60)) * (\<bar>i\<bar> mod 10) = sgn i * (\<bar>i\<bar> mod 10)"
  proof (cases "\<bar>i\<bar> mod 60 = 0")
    case True
    then have "\<bar>i\<bar> mod 10 = 0" using a by simp
    then show ?thesis by simp
  next
    case False
    then have "0 < \<bar>i\<bar> mod 60" by (simp add: order_less_le)
    then have "sgn (sgn i * (\<bar>i\<bar> mod 60)) = sgn i"
      by (cases "i = 0") (simp_all add: sgn_mult)
    then show ?thesis by simp
  qed
  show ?thesis by (simp only: signed_modulo_int_def abs_numeral b a c)
qed

lemma read_time_range:
  assumes "read_time s = Some v"
  shows "0 \<le> v \<and> v < 600"
proof -
  from assms obtain z m c t u where s: "s = [z, m, c, t, u]"
    by (auto simp: read_time_def split: list.splits)
  from assms s obtain a b d where d: "digit_val m = Some a" "digit_val t = Some b" "digit_val u = Some d"
    and b5: "b \<le> 5" and v: "v = a * 60 + b * 10 + d"
    by (auto simp: read_time_def split: if_splits option.splits)
  from d have "0 \<le> a \<and> a \<le> 9" "0 \<le> b \<and> b \<le> 9" "0 \<le> d \<and> d \<le> 9"
    by (auto dest: digit_val_range)
  with b5 v show ?thesis by auto
qed

lemma minutes_char:
  assumes "600 \<le> i" "i \<le> 3600"
  shows "(57::int) < of_char (time_string i ! 1)"
proof -
  have "10 \<le> i div 60" "i div 60 \<le> 60" using assms by auto
  then show ?thesis using assms
    by (simp add: time_string_def sdiv_nonneg)
qed

text \<open>
  Claim C10.  \<open>ShowTime\<close> writes \<open>0\<close>, the character \<open>'0' + iSecs/60\<close>, a
  colon and two digits of seconds.  Read back as \<open>0M:SS\<close> the string gives
  \<open>iSecs\<close> again exactly when \<open>0 \<le> iSecs < 600\<close>.  From 600 to 3600 seconds
  the minutes character lies above \<open>'9'\<close>, and the first time \<open>RunTimer\<close>
  displays is \<open>60 * iPeriod\<close>, so this happens at the start of every
  countdown of 10 to 60 minutes.  The last character is computed from
  \<open>iSecs % 10\<close>, which equals \<open>(iSecs % 60) % 10\<close>.
\<close>

theorem ShowTime_rendering:
  "(read_time (time_string i) = Some i \<longleftrightarrow> 0 \<le> i \<and> i < 600) \<and>
   (600 \<le> i \<and> i \<le> 3600 \<longrightarrow> (57::int) < of_char (time_string i ! 1)) \<and>
   (10 \<le> sint (iPeriod (state w)) \<and> sint (iPeriod (state w)) \<le> 60 \<and>
    RunTimer bs w = Some (w', bs') \<longrightarrow>
      hd (shown (added w w')) = time_string (sint (iPeriod (state w)) * 60) \<and>
      (57::int) < of_char (hd (shown (added w w')) ! 1)) \<and>
   time_string i ! 4 = char_of (i smod 10 + 48) \<and>
   i smod 10 = (i smod 60) smod 10"
proof (intro conjI impI)
  show "read_time (time_string i) = Some i \<longleftrightarrow> 0 \<le> i \<and> i < 600"
    using read_time_ok read_time_range by blast
  show "time_string i ! 4 = char_of (i smod 10 + 48)"
    by (simp add: time_string_def)
  show "i smod 10 = (i smod 60) smod 10"
    by (rule smod_10_60)
next
  assume "600 \<le> i \<and> i \<le> 3600"
  then show "(57::int) < of_char (time_string i ! 1)"
    using minutes_char by blast
next
  assume a: "10 \<le> sint (iPeriod (state w)) \<and> sint (iPeriod (state w)) \<le> 60 \<and>
             RunTimer bs w = Some (w', bs')"
  let ?n = "sint (iPeriod (state w)) * 60"
  from a have n: "sint (iPeriod (state w) * 60) = ?n" "600 \<le> ?n" "?n \<le> 3600"
    by (simp_all add: sint_times_60)
  from a RunTimer_events [of bs w w' bs'] n obtain t' where
    "trace w' = trace w @ oledFill # oledWriteString 0 0 ''Timer Mode'' #
                  oledWriteStringCustom (time_string ?n) # t'"
    by auto
  then have "added w w' = oledFill # oledWriteString 0 0 ''Timer Mode'' #
                  oledWriteStringCustom (time_string ?n) # t'"
    by (rule added_append)
  then have h: "hd (shown (added w w')) = time_string ?n"
    by (simp add: time_of_def)
  then show "hd (shown (added w w')) = time_string ?n" .
  show "(57::int) < of_char (hd (shown (added w w')) ! 1)"
    unfolding h using n minutes_char by blast
qed

theorem ShowTime_rendering_witness:
  "read_time (time_string 210) = Some 210 \<and>
   (600 \<le> (3600::int) \<and> (3600::int) \<le> 3600) \<and> (57::int) < of_char (time_string 3600 ! 1) \<and>
   (10 \<le> sint (iPeriod (state (timer_world 10))) \<and> sint (iPeriod (state (timer_world 10))) \<le> 60 \<and>
    RunTimer [btn_both] (timer_world 10) =
      Some (ShowTime 600 (emit (oledWriteString 0 0 ''Timer Mode'') (emit oledFill (timer_world 10))), [])) \<and>
   hd (shown (added (timer_world 10)
        (ShowTime 600 (emit (oledWriteString 0 0 ''Timer Mode'') (emit oledFill (timer_world 10))))))
     = ''0::00''"
proof -
  let ?w = "timer_world 10"
  let ?w' = "ShowTime 600 (emit (oledWriteString 0 0 ''Timer Mode'') (emit oledFill ?w))"
  have p: "sint (iPeriod (state ?w)) = 10" "iPeriod (state ?w) = 10"
    by (simp_all add: timer_world_def)
  have r: "RunTimer [btn_both] ?w = Some (?w', [])"
    by (simp add: RunTimer_def Let_def p)
  have s: "time_string 600 = ''0::00''"
    by (simp add: time_string_def signed_divide_int_def signed_modulo_int_def char_of_def)
  from ShowTime_rendering [of 210 ?w "[btn_both]" ?w' "[]"] 
  have 1: "read_time (time_string 210) = Some 210" by simp
  from ShowTime_rendering [of 3600 ?w "[btn_both]" ?w' "[]"] r p
  have 2: "(57::int) < of_char (time_string 3600 ! 1)"
    "hd (shown (added ?w ?w')) = time_string (10 * 60)"
    by simp_all
  from 1 2 r p s show ?thesis by simp
qed

section \<open>Stealth mode: levels and pulses\<close>

lemma getSample_simps [simp]:
  "trace (getSample w) = trace w @ [scd41_getSample]"
  "state (getSample w) = state w"
  "flash (getSample w) = flash w"
  "iCO2 (getSample w) = sensor w (nsamp w)"
  "iSample (getSample w) = iSample w"
  by (simp_all add: getSample_def)

lemma concat_replicate_snoc: "concat (replicate n p) @ p = concat (replicate (Suc n) p)"
  by (induction n) simp_all



lemma calls_pulses: "calls is_pulse (concat (replicate n pulse)) = n"
  by (induction n) (simp_all add: pulse_def is_pulse_def MOTOR_PIN_def)

lemma stealth_level_range: "1 \<le> stealth_level c \<and> stealth_level c \<le> 6"
  by (simp add: stealth_level_def Let_def)

lemma stealth_level_clamp: "stealth_level c = max 1 (min 6 (1 + c sdiv 500))"
  by (simp add: stealth_level_def Let_def)

section \<open>Low Power mode: the LED cue\<close>

lemma led_cue_trace:
  "trace (led_cue w) = trace w @
     (if iCO2 w < 1000 then [digitalWrite LED_GREEN True, Delay_Ms 2, digitalWrite LED_GREEN False]
      else if 1000 < iCO2 w \<and> iCO2 w < 2000
        then [digitalWrite LED_GREEN True, Delay_Ms 2, digitalWrite LED_GREEN False,
              digitalWrite LED_RED True, Delay_Ms 3, digitalWrite LED_RED False]
      else [digitalWrite LED_RED True, Delay_Ms 3, digitalWrite LED_RED False])"
  by (simp add: led_cue_def)

text \<open>
  Claim C5.  The LED cue of Low Power mode at the boundary: a sample of
  exactly 1000 ppm gets the red blink alone, as 2000 ppm does, while 999 ppm
  gets the green blink and 1001 ppm the green blink followed by the red one.
  The pass of the loop that takes the sample shows the same.
\<close>

theorem led_cue_at_1000:
  "added (w\<lparr>iCO2 := 1000\<rparr>) (led_cue (w\<lparr>iCO2 := 1000\<rparr>))
     = [digitalWrite LED_RED True, Delay_Ms 3, digitalWrite LED_RED False] \<and>
   added (w\<lparr>iCO2 := 2000\<rparr>) (led_cue (w\<lparr>iCO2 := 2000\<rparr>))
     = [digitalWrite LED_RED True, Delay_Ms 3, digitalWrite LED_RED False] \<and>
   added (w\<lparr>iCO2 := 999\<rparr>) (led_cue (w\<lparr>iCO2 := 999\<rparr>))
     = [digitalWrite LED_GREEN True, Delay_Ms 2, digitalWrite LED_GREEN False] \<and>
   added (w\<lparr>iCO2 := 1001\<rparr>) (led_cue (w\<lparr>iCO2 := 1001\<rparr>))
     = [digitalWrite LED_GREEN True, Delay_Ms 2, digitalWrite LED_GREEN False,
        digitalWrite LED_RED True, Delay_Ms 3, digitalWrite LED_RED False] \<and>
   added (w\<lparr>sensor := \<lambda>n. 1000\<rparr>)
         (snd (snd (snd (low_tick 0 0 119 1 (w\<lparr>sensor := \<lambda>n. 1000\<rparr>)))))
     = [Standby82ms 3, I2CInit 50000, scd41_getSample,
        digitalWrite LED_RED True, Delay_Ms 3, digitalWrite LED_RED False]"
  by (simp add: added_def led_cue_trace low_tick_def Let_def)

section \<open>The menu: cycling the settings\<close>

lemma activate_mode:
  "activate MENU_MODE st = st\<lparr>iMode := (if MODE_COUNT \<le>s iMode st + 1 then 0 else iMode st + 1)\<rparr>"
  by (simp add: activate_def menu_action_def Let_def MENU_START_def MENU_MODE_def)

lemma activate_freq:
  "activate MENU_FREQ st = st\<lparr>iFreq := (if 60 <s iFreq st + 15 then 15 else iFreq st + 15)\<rparr>"
  by (simp add: activate_def menu_action_def Let_def MENU_START_def MENU_MODE_def MENU_FREQ_def)

lemma activate_alert:
  "activate MENU_ALERT st = st\<lparr>iAlert := (if ALERT_COUNT \<le>s iAlert st + 1 then 0 else iAlert st + 1)\<rparr>"
  by (simp add: activate_def menu_action_def Let_def MENU_START_def MENU_MODE_def MENU_FREQ_def
      MENU_ALERT_def)

lemma activate_time:
  "activate MENU_TIME st = st\<lparr>iPeriod := (if 60 <s iPeriod st + 5 then 5 else iPeriod st + 5)\<rparr>"
  by (simp add: activate_def menu_action_def Let_def MENU_START_def MENU_MODE_def MENU_FREQ_def
      MENU_ALERT_def MENU_TIME_def)

lemma mode_steps:
  "iMode st = 0 \<Longrightarrow> activate MENU_MODE st = st\<lparr>iMode := 1\<rparr>"
  "iMode st = 1 \<Longrightarrow> activate MENU_MODE st = st\<lparr>iMode := 2\<rparr>"
  "iMode st = 2 \<Longrightarrow> activate MENU_MODE st = st\<lparr>iMode := 3\<rparr>"
  "iMode st = 3 \<Longrightarrow> activate MENU_MODE st = st\<lparr>iMode := 4\<rparr>"
  "iMode st = 4 \<Longrightarrow> activate MENU_MODE st = st\<lparr>iMode := 0\<rparr>"
  by (simp_all add: activate_mode MODE_COUNT_def word_sle_eq)

lemma freq_steps:
  "iFreq st = 15 \<Longrightarrow> activate MENU_FREQ st = st\<lparr>iFreq := 30\<rparr>"
  "iFreq st = 30 \<Longrightarrow> activate MENU_FREQ st = st\<lparr>iFreq := 45\<rparr>"
  "iFreq st = 45 \<Longrightarrow> activate MENU_FREQ st = st\<lparr>iFreq := 60\<rparr>"
  "iFreq st = 60 \<Longrightarrow> activate MENU_FREQ st = st\<lparr>iFreq := 15\<rparr>"
  by (simp_all add: activate_freq word_sless_alt)

lemma alert_steps:
  "iAlert st = 0 \<Longrightarrow> activate MENU_ALERT st = st\<lparr>iAlert := 1\<rparr>"
  "iAlert st = 1 \<Longrightarrow> activate MENU_ALERT st = st\<lparr>iAlert := 2\<rparr>"
  "iAlert st = 2 \<Longrightarrow> activate MENU_ALERT st = st\<lparr>iAlert := 0\<rparr>"
  by (simp_all add: activate_alert ALERT_COUNT_def word_sle_eq)

lemma time_steps:
  "iPeriod st = 5 \<Longrightarrow> activate MENU_TIME st = st\<lparr>iPeriod := 10\<rparr>"
  "iPeriod st = 10 \<Longrightarrow> activate MENU_TIME st = st\<lparr>iPeriod := 15\<rparr>"
  "iPeriod st = 15 \<Longrightarrow> activate MENU_TIME st = st\<lparr>iPeriod := 20\<rparr>"
  "iPeriod st = 20 \<Longrightarrow> activate MENU_TIME st = st\<lparr>iPeriod := 25\<rparr>"
  "iPeriod st = 25 \<Longrightarrow> activate MENU_TIME st = st\<lparr>iPeriod := 30\<rparr>"
  "iPeriod st = 30 \<Longrightarrow> activate MENU_TIME st = st\<lparr>iPeriod := 35\<rparr>"
  "iPeriod st = 35 \<Longrightarrow> activate MENU_TIME st = st\<lparr>iPeriod := 40\<rparr>"
  "iPeriod st = 40 \<Longrightarrow> activate MENU_TIME st = st\<lparr>iPeriod := 45\<rparr>"
  "iPeriod st = 45 \<Longrightarrow> activate MENU_TIME st = st\<lparr>iPeriod := 50\<rparr>"
  "iPeriod st = 50 \<Longrightarrow> activate MENU_TIME st = st\<lparr>iPeriod := 55\<rparr>"
  "iPeriod st = 55 \<Longrightarrow> activate MENU_TIME st = st\<lparr>iPeriod := 60\<rparr>"
  "iPeriod st = 60 \<Longrightarrow> activate MENU_TIME st = st\<lparr>iPeriod := 5\<rparr>"
  by (simp_all add: activate_time word_sless_alt)

lemma field_id:
  "iMode st = v \<Longrightarrow> st\<lparr>iMode := v\<rparr> = st"
  "iFreq st = v \<Longrightarrow> st\<lparr>iFreq := v\<rparr> = st"
  "iAlert st = v \<Longrightarrow> st\<lparr>iAlert := v\<rparr> = st"
  "iPeriod st = v \<Longrightarrow> st\<lparr>iPeriod := v\<rparr> = st"
  by auto

lemma mode_cycle_at:
  assumes "iMode st = v" "v = 0 \<or> v = 1 \<or> v = 2 \<or> v = 3 \<or> v = 4"
  shows "(activate MENU_MODE ^^ 5) st = st"
  using assms(2)
  by (elim disjE) (simp_all add: eval_nat_numeral mode_steps assms(1) field_id)

lemma freq_cycle_at:
  assumes "iFreq st = v" "v = 15 \<or> v = 30 \<or> v = 45 \<or> v = 60"
  shows "(activate MENU_FREQ ^^ 4) st = st"
  using assms(2)
  by (elim disjE) (simp_all add: eval_nat_numeral freq_steps assms(1) field_id)

lemma alert_cycle_at:
  assumes "iAlert st = v" "v = 0 \<or> v = 1 \<or> v = 2"
  shows "(activate MENU_ALERT ^^ 3) st = st"
  using assms(2)
  by (elim disjE) (simp_all add: eval_nat_numeral alert_steps assms(1) field_id)

lemma time_cycle_at:
  assumes "iPeriod st = v"
    "v = 5 \<or> v = 10 \<or> v = 15 \<or> v = 20 \<or> v = 25 \<or> v = 30 \<or> v = 35 \<or> v = 40 \<or> v = 45 \<or> v = 50 \<or> v = 55 \<or> v = 60"
  shows "(activate MENU_TIME ^^ 12) st = st"
  using assms(2)
  by (elim disjE) (simp_all add: eval_nat_numeral time_steps assms(1) field_id)

lemma wait_simps [simp]:
  "wait_release (btn_none # bs) w = Some (w, bs)"
  "wait_release (btn_0 # bs) w = wait_release bs (emit (Delay_Ms 20) w)"
  "wait_release (btn_1 # bs) w = wait_release bs (emit (Delay_Ms 20) w)"
  "wait_release (btn_both # bs) w = wait_release bs (emit (Delay_Ms 20) w)"
  "wait_press (btn_none # bs) w = wait_press bs (emit (Delay_Ms 20) w)"
  "wait_press (btn_0 # bs) w = Some (1, w, bs)"
  "wait_press (btn_1 # bs) w = Some (2, w, bs)"
  "wait_press (btn_both # bs) w = Some (3, w, bs)"
  by simp_all

lemma menu_loop_button1:
  assumes "sel \<noteq> MENU_START"
  shows "menu_loop sel (btn_none # btn_1 # btn_1 # bs) w =
           menu_loop sel bs ((emit (drawMenu sel (state w)) w)\<lparr>state := activate sel (state w)\<rparr>)"
proof -
  have "fst (menu_action sel (state w)) = False"
    using assms by (simp add: menu_action_def Let_def)
  then have "menu_action sel (state w) = (False, activate sel (state w))"
    by (simp add: activate_def prod_eq_iff)
  then show ?thesis
    by (subst menu_loop.simps) (simp add: Let_def)
qed

lemma menu_loop_button0:
  "menu_loop sel (btn_none # btn_0 # btn_0 # bs) w =
     menu_loop (if sel + 1 = MENU_COUNT then 0 else sel + 1) bs (emit (drawMenu sel (state w)) w)"
  by (subst menu_loop.simps) (simp add: Let_def)

lemma menu_loop_start:
  "menu_loop MENU_START (btn_none # btn_1 # btn_1 # bs) w =
     Some (emit (drawMenu MENU_START (state w)) w, bs)"
  by (subst menu_loop.simps) (simp add: Let_def menu_action_def)

text \<open>
  Claim C8.  Pressing Button 1 on a menu item other than Start replaces the
  record by \<open>activate\<close> of it and nothing else.  On the Mode item five presses
  lead back to the mode one started from, through the other four modes; the
  update time goes 15, 30, 45, 60 and back to 15; the alert goes Vibration,
  LEDs, both and back to Vibration; the timer period goes from 5 to 60 in
  steps of 5 and back to 5, twelve presses leading back to the start.  Each
  item changes its own field only.
\<close>

theorem menu_cycling:
  "(enumerated_mode (iMode st) \<longrightarrow> (activate MENU_MODE ^^ 5) st = st) \<and>
   (iMode st = MODE_CONTINUOUS \<longrightarrow>
      map (\<lambda>k. iMode ((activate MENU_MODE ^^ k) st)) [1, 2, 3, 4, 5]
        = [MODE_LOW_POWER, MODE_STEALTH, MODE_CALIBRATE, MODE_TIMER, MODE_CONTINUOUS]) \<and>
   (iFreq st \<in> {15, 30, 45, 60} \<longrightarrow> (activate MENU_FREQ ^^ 4) st = st) \<and>
   (iFreq st = 15 \<longrightarrow>
      map (\<lambda>k. iFreq ((activate MENU_FREQ ^^ k) st)) [1, 2, 3, 4] = [30, 45, 60, 15]) \<and>
   (iAlert st \<in> {ALERT_VIBRATION, ALERT_LED, ALERT_BOTH} \<longrightarrow> (activate MENU_ALERT ^^ 3) st = st) \<and>
   (iAlert st = ALERT_VIBRATION \<longrightarrow>
      map (\<lambda>k. iAlert ((activate MENU_ALERT ^^ k) st)) [1, 2, 3]
        = [ALERT_LED, ALERT_BOTH, ALERT_VIBRATION]) \<and>
   (iPeriod st \<in> {5, 10, 15, 20, 25, 30, 35, 40, 45, 50, 55, 60} \<longrightarrow>
      (activate MENU_TIME ^^ 12) st = st) \<and>
   (iPeriod st = 5 \<longrightarrow>
      map (\<lambda>k. iPeriod ((activate MENU_TIME ^^ k) st)) [1, 2, 3, 4, 5, 6, 7, 8, 9, 10, 11, 12]
        = [10, 15, 20, 25, 30, 35, 40, 45, 50, 55, 60, 5]) \<and>
   activate MENU_MODE st = st\<lparr>iMode := iMode (activate MENU_MODE st)\<rparr> \<and>
   activate MENU_FREQ st = st\<lparr>iFreq := iFreq (activate MENU_FREQ st)\<rparr> \<and>
   activate MENU_ALERT st = st\<lparr>iAlert := iAlert (activate MENU_ALERT st)\<rparr> \<and>
   activate MENU_TIME st = st\<lparr>iPeriod := iPeriod (activate MENU_TIME st)\<rparr> \<and>
   (sel \<noteq> MENU_START \<longrightarrow>
      menu_loop sel (btn_none # btn_1 # btn_1 # bs) w =
        menu_loop sel bs ((emit (drawMenu sel (state w)) w)\<lparr>state := activate sel (state w)\<rparr>))"
proof (intro conjI impI)
  assume "enumerated_mode (iMode st)"
  then show "(activate MENU_MODE ^^ 5) st = st"
    by (intro mode_cycle_at [OF refl])
       (auto simp: enumerated_mode_def MODE_CONTINUOUS_def MODE_LOW_POWER_def MODE_STEALTH_def
          MODE_CALIBRATE_def MODE_TIMER_def)
next
  assume "iMode st = MODE_CONTINUOUS"
  then show "map (\<lambda>k. iMode ((activate MENU_MODE ^^ k) st)) [1, 2, 3, 4, 5]
        = [MODE_LOW_POWER, MODE_STEALTH, MODE_CALIBRATE, MODE_TIMER, MODE_CONTINUOUS]"
    by (simp add: eval_nat_numeral mode_steps MODE_CONTINUOUS_def MODE_LOW_POWER_def
        MODE_STEALTH_def MODE_CALIBRATE_def MODE_TIMER_def)
next
  assume "iFreq st \<in> {15, 30, 45, 60}"
  then show "(activate MENU_FREQ ^^ 4) st = st"
    by (intro freq_cycle_at [OF refl]) auto
next
  assume "iFreq st = 15"
  then show "map (\<lambda>k. iFreq ((activate MENU_FREQ ^^ k) st)) [1, 2, 3, 4] = [30, 45, 60, 15]"
    by (simp add: eval_nat_numeral freq_steps)
next
  assume "iAlert st \<in> {ALERT_VIBRATION, ALERT_LED, ALERT_BOTH}"
  then show "(activate MENU_ALERT ^^ 3) st = st"
    by (intro alert_cycle_at [OF refl])
       (auto simp: ALERT_VIBRATION_def ALERT_LED_def ALERT_BOTH_def)
next
  assume "iAlert st = ALERT_VIBRATION"
  then show "map (\<lambda>k. iAlert ((activate MENU_ALERT ^^ k) st)) [1, 2, 3]
        = [ALERT_LED, ALERT_BOTH, ALERT_VIBRATION]"
    by (simp add: eval_nat_numeral alert_steps ALERT_VIBRATION_def ALERT_LED_def ALERT_BOTH_def)
next
  assume "iPeriod st \<in> {5, 10, 15, 20, 25, 30, 35, 40, 45, 50, 55, 60}"
  then show "(activate MENU_TIME ^^ 12) st = st"
    by (intro time_cycle_at [OF refl]) auto
next
  assume "iPeriod st = 5"
  then show "map (\<lambda>k. iPeriod ((activate MENU_TIME ^^ k) st)) [1, 2, 3, 4, 5, 6, 7, 8, 9, 10, 11, 12]
        = [10, 15, 20, 25, 30, 35, 40, 45, 50, 55, 60, 5]"
    by (simp add: eval_nat_numeral time_steps)
next
  show "activate MENU_MODE st = st\<lparr>iMode := iMode (activate MENU_MODE st)\<rparr>"
    by (simp add: activate_mode)
  show "activate MENU_FREQ st = st\<lparr>iFreq := iFreq (activate MENU_FREQ st)\<rparr>"
    by (simp add: activate_freq)
  show "activate MENU_ALERT st = st\<lparr>iAlert := iAlert (activate MENU_ALERT st)\<rparr>"
    by (simp add: activate_alert)
  show "activate MENU_TIME st = st\<lparr>iPeriod := iPeriod (activate MENU_TIME st)\<rparr>"
    by (simp add: activate_time)
next
  assume "sel \<noteq> MENU_START"
  then show "menu_loop sel (btn_none # btn_1 # btn_1 # bs) w =
        menu_loop sel bs ((emit (drawMenu sel (state w)) w)\<lparr>state := activate sel (state w)\<rparr>)"
    by (rule menu_loop_button1)
qed

theorem menu_cycling_witness:
  "enumerated_mode (iMode \<lparr>iMode = MODE_CONTINUOUS, iAlert = ALERT_VIBRATION, iFreq = 15, iPeriod = 5\<rparr>) \<and>
   (activate MENU_MODE ^^ 5) \<lparr>iMode = MODE_CONTINUOUS, iAlert = ALERT_VIBRATION, iFreq = 15, iPeriod = 5\<rparr>
     = \<lparr>iMode = MODE_CONTINUOUS, iAlert = ALERT_VIBRATION, iFreq = 15, iPeriod = 5\<rparr> \<and>
   map (\<lambda>k. iFreq ((activate MENU_FREQ ^^ k)
          \<lparr>iMode = MODE_CONTINUOUS, iAlert = ALERT_VIBRATION, iFreq = 15, iPeriod = 5\<rparr>)) [1, 2, 3, 4]
     = [30, 45, 60, 15] \<and>
   (activate MENU_ALERT ^^ 3) \<lparr>iMode = MODE_CONTINUOUS, iAlert = ALERT_VIBRATION, iFreq = 15, iPeriod = 5\<rparr>
     = \<lparr>iMode = MODE_CONTINUOUS, iAlert = ALERT_VIBRATION, iFreq = 15, iPeriod = 5\<rparr> \<and>
   (activate MENU_TIME ^^ 12) \<lparr>iMode = MODE_CONTINUOUS, iAlert = ALERT_VIBRATION, iFreq = 15, iPeriod = 5\<rparr>
     = \<lparr>iMode = MODE_CONTINUOUS, iAlert = ALERT_VIBRATION, iFreq = 15, iPeriod = 5\<rparr> \<and>
   MENU_TIME \<noteq> MENU_START \<and>
   menu_loop MENU_TIME [btn_none, btn_1, btn_1] (power_on flash_erased (\<lambda>n. 400)) =
     menu_loop MENU_TIME []
       ((emit (drawMenu MENU_TIME (state (power_on flash_erased (\<lambda>n. 400))))
           (power_on flash_erased (\<lambda>n. 400)))
        \<lparr>state := activate MENU_TIME (state (power_on flash_erased (\<lambda>n. 400)))\<rparr>)"
proof -
  let ?st = "\<lparr>iMode = MODE_CONTINUOUS, iAlert = ALERT_VIBRATION, iFreq = 15, iPeriod = 5\<rparr>"
  have h: "enumerated_mode (iMode ?st)" "iMode ?st = MODE_CONTINUOUS"
    "iFreq ?st \<in> {15, 30, 45, 60}" "iFreq ?st = 15"
    "iAlert ?st \<in> {ALERT_VIBRATION, ALERT_LED, ALERT_BOTH}" "iAlert ?st = ALERT_VIBRATION"
    "iPeriod ?st \<in> {5, 10, 15, 20, 25, 30, 35, 40, 45, 50, 55, 60}" "iPeriod ?st = 5"
    "MENU_TIME \<noteq> MENU_START"
    by (simp_all add: enumerated_mode_def MENU_TIME_def MENU_START_def)
  from menu_cycling [of ?st MENU_TIME "[]" "power_on flash_erased (\<lambda>n. 400)"] h
  show ?thesis by blast
qed

section \<open>The menu: saving on Start\<close>

lemma wait_release_events:
  "wait_release bs w = Some (w', bs') \<Longrightarrow>
     state w' = state w \<and> flash w' = flash w \<and>
     (\<exists>t. trace w' = trace w @ t \<and> (\<forall>e\<in>set t. untracked e))"
proof (induction bs arbitrary: w)
  case Nil
  then show ?case by simp
next
  case (Cons p ps)
  show ?case
  proof (cases "GetButtons p \<noteq> 0")
    case True
    with Cons.prems have "wait_release ps (emit (Delay_Ms 20) w) = Some (w', bs')" by simp
    from Cons.IH [OF this] obtain t where
      "state w' = state w" "flash w' = flash w" "trace w' = trace w @ Delay_Ms 20 # t"
      "\<forall>e\<in>set t. untracked e"
      by auto
    moreover have "untracked (Delay_Ms 20)" by (simp add: untracked_def)
    ultimately show ?thesis by (intro conjI exI [of _ "Delay_Ms 20 # t"]) simp_all
  next
    case False
    with Cons.prems show ?thesis by auto
  qed
qed

lemma wait_press_events:
  "wait_press bs w = Some (j, w', bs') \<Longrightarrow>
     state w' = state w \<and> flash w' = flash w \<and>
     (\<exists>t. trace w' = trace w @ t \<and> (\<forall>e\<in>set t. untracked e))"
proof (induction bs arbitrary: w)
  case Nil
  then show ?case by simp
next
  case (Cons p ps)
  show ?case
  proof (cases "GetButtons p = 0")
    case True
    with Cons.prems have "wait_press ps (emit (Delay_Ms 20) w) = Some (j, w', bs')" by simp
    from Cons.IH [OF this] obtain t where
      "state w' = state w" "flash w' = flash w" "trace w' = trace w @ Delay_Ms 20 # t"
      "\<forall>e\<in>set t. untracked e"
      by auto
    moreover have "untracked (Delay_Ms 20)" by (simp add: untracked_def)
    ultimately show ?thesis by (intro conjI exI [of _ "Delay_Ms 20 # t"]) simp_all
  next
    case False
    with Cons.prems show ?thesis by auto
  qed
qed

lemma menu_action_mode:
  assumes "enumerated_mode (iMode st)"
  shows "enumerated_mode (iMode (snd (menu_action sel st)))"
proof (cases "sel = MENU_MODE")
  case True
  then have "snd (menu_action sel st) = activate MENU_MODE st" by (simp add: activate_def)
  moreover from assms have "enumerated_mode (iMode (activate MENU_MODE st))"
    by (auto simp: enumerated_mode_def mode_steps MODE_CONTINUOUS_def MODE_LOW_POWER_def
        MODE_STEALTH_def MODE_CALIBRATE_def MODE_TIMER_def)
  ultimately show ?thesis by simp
next
  case False
  then have "iMode (snd (menu_action sel st)) = iMode st"
    by (simp add: menu_action_def Let_def)
  with assms show ?thesis by simp
qed

lemma menu_loop_events:
  "menu_loop sel bs w = Some (w', bs') \<Longrightarrow>
     flash w' = flash w \<and>
     (\<exists>t. trace w' = trace w @ t \<and> (\<forall>e\<in>set t. untracked e)) \<and>
     (enumerated_mode (iMode (state w)) \<longrightarrow> enumerated_mode (iMode (state w')))"
proof (induction "length bs" arbitrary: sel bs w rule: less_induct)
  case less
  let ?w0 = "emit (drawMenu sel (state w)) w"
  from less.prems obtain w1 bs1 where r1: "wait_release bs ?w0 = Some (w1, bs1)"
    by (subst (asm) menu_loop.simps) (auto simp: Let_def split: option.splits)
  from less.prems r1 obtain j w2 bs2 where r2: "wait_press bs1 w1 = Some (j, w2, bs2)"
    by (subst (asm) menu_loop.simps) (auto simp: Let_def split: option.splits)
  from less.prems r1 r2 obtain p bs3 where r3: "bs2 = p # bs3"
    by (subst (asm) menu_loop.simps) (auto simp: Let_def split: list.splits)
  have len: "length bs3 < length bs"
    using wait_release_shorter [OF r1] wait_press_shorter [OF r2] r3 by simp
  from wait_release_events [OF r1] obtain ta where
    ta: "state w1 = state w" "flash w1 = flash w"
      "trace w1 = trace w @ drawMenu sel (state w) # ta" "\<forall>e\<in>set ta. untracked e"
    by auto
  from wait_press_events [OF r2] obtain tb where
    tb: "state w2 = state w1" "flash w2 = flash w1"
      "trace w2 = trace w1 @ tb" "\<forall>e\<in>set tb. untracked e"
    by auto
  have "trace w2 = trace w @ drawMenu sel (state w) # (ta @ tb)"
    using ta(3) tb(3) by simp
  moreover have "\<forall>e\<in>set (ta @ tb). untracked e"
    using ta(4) tb(4) by auto
  ultimately obtain t2 where w2: "state w2 = state w" "flash w2 = flash w"
    "trace w2 = trace w @ drawMenu sel (state w) # t2" "\<forall>e\<in>set t2. untracked e"
    using ta(1,2) tb(1,2) by metis
  have dm: "untracked (drawMenu sel (state w))" by (simp add: untracked_def)
  let ?y = "GetButtons p"
  have unfold: "menu_loop sel bs w =
      (if ?y AND 1 \<noteq> 0
         then menu_loop (if sel + 1 = MENU_COUNT then 0 else sel + 1) bs3 w2
       else if ?y AND 2 \<noteq> 0
         then (if fst (menu_action sel (state w2))
               then Some (w2\<lparr>state := snd (menu_action sel (state w2))\<rparr>, bs3)
               else menu_loop sel bs3 (w2\<lparr>state := snd (menu_action sel (state w2))\<rparr>))
       else menu_loop sel bs3 w2)"
    using r1 r2 r3 by (subst menu_loop.simps) (simp add: Let_def split: prod.splits)
  have rec: "\<And>sel' v. menu_loop sel' bs3 v = Some (w', bs') \<Longrightarrow>
      flash v = flash w \<Longrightarrow> trace v = trace w2 \<Longrightarrow>
      (enumerated_mode (iMode (state w)) \<longrightarrow> enumerated_mode (iMode (state v))) \<Longrightarrow> ?case"
  proof -
    fix sel' v
    assume a: "menu_loop sel' bs3 v = Some (w', bs')" "flash v = flash w" "trace v = trace w2"
      "enumerated_mode (iMode (state w)) \<longrightarrow> enumerated_mode (iMode (state v))"
    from less.hyps [OF len a(1)] obtain t where
      t: "flash w' = flash v" "trace w' = trace v @ t" "\<forall>e\<in>set t. untracked e"
        "enumerated_mode (iMode (state v)) \<longrightarrow> enumerated_mode (iMode (state w'))"
      by auto
    have tr: "trace w' = trace w @ (drawMenu sel (state w) # t2 @ t)"
      using t(2) a(3) w2(3) by simp
    have un: "\<forall>e\<in>set (drawMenu sel (state w) # t2 @ t). untracked e"
      using t(3) w2(4) dm by auto
    show ?case
      using t(1) t(4) a(2) a(4) tr un
      by (intro conjI exI [of _ "drawMenu sel (state w) # t2 @ t"] impI) auto
  qed
  show ?case
  proof (cases "?y AND 1 \<noteq> 0")
    case True
    with less.prems unfold
    have "menu_loop (if sel + 1 = MENU_COUNT then 0 else sel + 1) bs3 w2 = Some (w', bs')" by simp
    then show ?thesis using w2 by (intro rec [of _ w2]) auto
  next
    case n1: False
    show ?thesis
    proof (cases "?y AND 2 \<noteq> 0")
      case False
      with n1 less.prems unfold have "menu_loop sel bs3 w2 = Some (w', bs')" by simp
      then show ?thesis using w2 by (intro rec [of _ w2]) auto
    next
      case True
      let ?v = "w2\<lparr>state := snd (menu_action sel (state w2))\<rparr>"
      have en: "enumerated_mode (iMode (state w)) \<longrightarrow> enumerated_mode (iMode (state ?v))"
        using menu_action_mode [of "state w" sel] w2(1) by simp
      show ?thesis
      proof (cases "fst (menu_action sel (state w2))")
        case False
        with True n1 less.prems unfold have "menu_loop sel bs3 ?v = Some (w', bs')" by simp
        then show ?thesis using w2 en by (intro rec [of sel ?v]) auto
      next
        case fin: True
        with True n1 less.prems unfold have w': "w' = ?v" by simp
        have tr: "trace w' = trace w @ (drawMenu sel (state w) # t2)"
          using w' w2(3) by simp
        have un: "\<forall>e\<in>set (drawMenu sel (state w) # t2). untracked e"
          using w2(4) dm by auto
        have fl: "flash w' = flash w" using w' w2(2) by simp
        show ?thesis
          using en w' tr un fl
          by (intro conjI exI [of _ "drawMenu sel (state w) # t2"] impI) auto
      qed
    qed
  qed
qed

lemma memcmp_differs_iff: "memcmp_differs s t \<longleftrightarrow> s \<noteq> t"
  by (cases s; cases t) (auto simp: memcmp_differs_def upt_4 get_word_def)

lemma RunMenu_result:
  assumes "RunMenu bs w = Some (w', bs')"
  shows "\<exists>w1 t. flash w1 = flash w \<and> trace w1 = trace w @ t \<and> (\<forall>e\<in>set t. untracked e) \<and>
           (enumerated_mode (iMode (state w)) \<longrightarrow> enumerated_mode (iMode (state w1))) \<and>
           w' = (if iMode (state w1) \<noteq> MODE_CALIBRATE \<and> state w1 \<noteq> state w
                 then WriteFlash w1 else w1)"
proof -
  let ?w0 = "emit (oledWriteString 4 0 ''Pocket CO2'') (emit (oledContrast 150) (emit oledFill (emit oledInit w)))"
  from assms obtain w1 where l: "menu_loop 0 bs ?w0 = Some (w1, bs')"
    and w': "w' = (if iMode (state w1) \<noteq> MODE_CALIBRATE \<and> state w1 \<noteq> state w
                   then WriteFlash w1 else w1)"
    by (auto simp: RunMenu_def Let_def memcmp_differs_iff split: option.splits if_splits)
  from menu_loop_events [OF l] obtain t where
    t: "flash w1 = flash w" "trace w1 = trace ?w0 @ t" "\<forall>e\<in>set t. untracked e"
      "enumerated_mode (iMode (state w)) \<longrightarrow> enumerated_mode (iMode (state w1))"
    by auto
  let ?t = "[oledInit, oledFill, oledContrast 150, oledWriteString 4 0 ''Pocket CO2''] @ t"
  have "trace w1 = trace w @ ?t" using t(2) by simp
  moreover have "\<forall>e\<in>set ?t. untracked e" using t(3) by (auto simp: untracked_def)
  ultimately show ?thesis using t(1) t(4) w'
    by (intro exI [of _ w1] exI [of _ ?t] conjI) auto
qed

text \<open>
  Claim C2.  When \<open>RunMenu\<close> returns (Start was activated), it has programmed
  the FLASH page once if the record differs from the one at entry and the
  mode is not Calibrate, and not at all otherwise; in the first case the page
  holds the new record, in the second it is untouched.
\<close>

theorem RunMenu_saves:
  assumes "RunMenu bs w = Some (w', bs')"
  shows "calls is_program (added w w')
           = (if iMode (state w') \<noteq> MODE_CALIBRATE \<and> state w' \<noteq> state w then 1 else 0) \<and>
         (iMode (state w') = MODE_CALIBRATE \<or> state w' = state w \<longrightarrow> flash w' = flash w) \<and>
         (iMode (state w') \<noteq> MODE_CALIBRATE \<and> state w' \<noteq> state w \<longrightarrow>
            persisted (flash w') = state w')"
proof -
  from RunMenu_result [OF assms] obtain w1 t where
    r: "flash w1 = flash w" "trace w1 = trace w @ t" "\<forall>e\<in>set t. untracked e"
      "w' = (if iMode (state w1) \<noteq> MODE_CALIBRATE \<and> state w1 \<noteq> state w
             then WriteFlash w1 else w1)"
    by blast
  have q: "calls is_program t = 0"
    using r(3) by (intro calls_none) auto
  show ?thesis
  proof (cases "iMode (state w1) \<noteq> MODE_CALIBRATE \<and> state w1 \<noteq> state w")
    case True
    then have w': "w' = WriteFlash w1" using r(4) by simp
    have s: "state w' = state w1" by (simp add: w' WriteFlash_state)
    have "added w w' = t @ [FLASH_ErasePage_Fast,
        FLASH_ProgramPage_Fast [iMode (state w1), iAlert (state w1), iFreq (state w1), iPeriod (state w1)]]"
      by (simp add: w' WriteFlash_trace r(2) added_def)
    then have "calls is_program (added w w') = 1"
      using q by (simp add: is_program_def)
    moreover have "persisted (flash w') = state w'"
      by (simp add: w' WriteFlash_flash WriteFlash_state)
    ultimately show ?thesis using True s by simp
  next
    case False
    then have w': "w' = w1" using r(4) by auto
    have "added w w' = t" using r(2) w' by (simp add: added_def)
    then show ?thesis using False q w' r(1) by auto
  qed
qed

lemma ne_mode:
  assumes "iMode (state w) = 4"
  shows "(state w)\<lparr>iMode := 0\<rparr> \<noteq> state w"
proof
  assume "(state w)\<lparr>iMode := 0\<rparr> = state w"
  then have "iMode ((state w)\<lparr>iMode := 0\<rparr>) = iMode (state w)" by simp
  with assms show False by simp
qed

lemma menu_steps:
  "menu_loop 0 (btn_none # btn_0 # btn_0 # bs) w = menu_loop 1 bs (emit (drawMenu 0 (state w)) w)"
  "menu_loop 1 (btn_none # btn_0 # btn_0 # bs) w = menu_loop 2 bs (emit (drawMenu 1 (state w)) w)"
  "menu_loop 2 (btn_none # btn_0 # btn_0 # bs) w = menu_loop 3 bs (emit (drawMenu 2 (state w)) w)"
  "menu_loop 3 (btn_none # btn_0 # btn_0 # bs) w = menu_loop 4 bs (emit (drawMenu 3 (state w)) w)"
  "menu_loop 4 (btn_none # btn_0 # btn_0 # bs) w = menu_loop 0 bs (emit (drawMenu 4 (state w)) w)"
  "menu_loop 1 (btn_none # btn_1 # btn_1 # bs) w =
     menu_loop 1 bs ((emit (drawMenu 1 (state w)) w)\<lparr>state := activate MENU_MODE (state w)\<rparr>)"
  "menu_loop 0 (btn_none # btn_1 # btn_1 # bs) w = Some (emit (drawMenu 0 (state w)) w, bs)"
  using menu_loop_button1 [of MENU_MODE bs w] menu_loop_start [of bs w]
  by (simp_all add: menu_loop_button0 MENU_COUNT_def MENU_START_def MENU_MODE_def)

lemma menu_loop_change:
  "\<exists>w1. menu_loop 0 change_mode_and_start w = Some (w1, []) \<and>
         state w1 = activate MENU_MODE (state w)"
  by (simp add: change_mode_and_start_def menu_steps)

lemma RunMenu_change:
  assumes "iMode (state w) = 4"
  shows "\<exists>w'. RunMenu change_mode_and_start w = Some (w', []) \<and> state w' = (state w)\<lparr>iMode := 0\<rparr>"
proof -
  let ?h = "emit (oledWriteString 4 0 ''Pocket CO2'') (emit (oledContrast 150) (emit oledFill (emit oledInit w)))"
  from menu_loop_change [of ?h] obtain w1 where
    m: "menu_loop 0 change_mode_and_start ?h = Some (w1, [])"
       "state w1 = activate MENU_MODE (state w)"
    by auto
  have s1: "state w1 = (state w)\<lparr>iMode := 0\<rparr>"
    using m(2) mode_steps(5) [OF assms] by simp
  have "RunMenu change_mode_and_start w = Some (WriteFlash w1, [])"
    using ne_mode [OF assms]
    by (simp add: RunMenu_def Let_def m(1) memcmp_differs_iff s1 MODE_CALIBRATE_def)
  then show ?thesis
    by (simp add: WriteFlash_state s1)
qed

lemma RunMenu_calibrate:
  assumes "iMode (state w) = 2"
  shows "\<exists>w'. RunMenu change_mode_and_start w = Some (w', []) \<and>
              state w' = (state w)\<lparr>iMode := MODE_CALIBRATE\<rparr>"
proof -
  let ?h = "emit (oledWriteString 4 0 ''Pocket CO2'') (emit (oledContrast 150) (emit oledFill (emit oledInit w)))"
  from menu_loop_change [of ?h] obtain w1 where
    m: "menu_loop 0 change_mode_and_start ?h = Some (w1, [])"
       "state w1 = activate MENU_MODE (state w)"
    by auto
  have s1: "state w1 = (state w)\<lparr>iMode := MODE_CALIBRATE\<rparr>"
    using m(2) mode_steps(3) [OF assms] by (simp add: MODE_CALIBRATE_def)
  have "RunMenu change_mode_and_start w = Some (w1, [])"
    by (simp add: RunMenu_def Let_def m(1) s1)
  then show ?thesis
    by (simp add: s1)
qed

lemma RunMenu_start_at_once:
  "\<exists>w'. RunMenu start_at_once w = Some (w', []) \<and> state w' = state w"
  by (simp add: RunMenu_def Let_def start_at_once_def menu_steps memcmp_differs_iff)

theorem RunMenu_saves_witness:
  "(\<exists>w'. RunMenu change_mode_and_start (timer_world 5) = Some (w', []) \<and>
         iMode (state w') = MODE_CONTINUOUS \<and>
         calls is_program (added (timer_world 5) w') = 1 \<and>
         persisted (flash w') = state w') \<and>
   (\<exists>w'. RunMenu change_mode_and_start (stealth_world 30 400) = Some (w', []) \<and>
         iMode (state w') = MODE_CALIBRATE \<and> state w' \<noteq> state (stealth_world 30 400) \<and>
         calls is_program (added (stealth_world 30 400) w') = 0 \<and>
         flash w' = flash (stealth_world 30 400)) \<and>
   (\<exists>w'. RunMenu start_at_once (timer_world 5) = Some (w', []) \<and>
         state w' = state (timer_world 5) \<and>
         calls is_program (added (timer_world 5) w') = 0 \<and>
         flash w' = flash (timer_world 5))"
proof (intro conjI)
  let ?w = "timer_world 5"
  have i: "iMode (state ?w) = 4" by (simp add: timer_world_def MODE_TIMER_def)
  from RunMenu_change [OF i] obtain w' where
    r: "RunMenu change_mode_and_start ?w = Some (w', [])" "state w' = (state ?w)\<lparr>iMode := 0\<rparr>"
    by blast
  have m: "iMode (state w') = MODE_CONTINUOUS" "iMode (state w') \<noteq> MODE_CALIBRATE"
    "state w' \<noteq> state ?w"
    using r(2) ne_mode [OF i] by (simp_all add: MODE_CONTINUOUS_def MODE_CALIBRATE_def)
  from RunMenu_saves [OF r(1)] m r(1)
  show "\<exists>w'. RunMenu change_mode_and_start ?w = Some (w', []) \<and>
         iMode (state w') = MODE_CONTINUOUS \<and>
         calls is_program (added ?w w') = 1 \<and>
         persisted (flash w') = state w'"
    by (intro exI [of _ w']) simp
next
  let ?w = "stealth_world 30 400"
  have i: "iMode (state ?w) = 2" by (simp add: stealth_world_def MODE_STEALTH_def)
  from RunMenu_calibrate [OF i] obtain w' where
    r: "RunMenu change_mode_and_start ?w = Some (w', [])"
       "state w' = (state ?w)\<lparr>iMode := MODE_CALIBRATE\<rparr>"
    by blast
  have m: "iMode (state w') = MODE_CALIBRATE" using r(2) by simp
  have "iMode (state w') \<noteq> iMode (state ?w)"
    using m i by (simp add: MODE_CALIBRATE_def)
  then have n: "state w' \<noteq> state ?w" by auto
  from RunMenu_saves [OF r(1)] m n r(1)
  show "\<exists>w'. RunMenu change_mode_and_start ?w = Some (w', []) \<and>
         iMode (state w') = MODE_CALIBRATE \<and> state w' \<noteq> state ?w \<and>
         calls is_program (added ?w w') = 0 \<and>
         flash w' = flash ?w"
    by (intro exI [of _ w']) simp
next
  let ?w = "timer_world 5"
  from RunMenu_start_at_once [of ?w] obtain w' where
    r: "RunMenu start_at_once ?w = Some (w', [])" "state w' = state ?w"
    by blast
  from RunMenu_saves [OF r(1)] r
  show "\<exists>w'. RunMenu start_at_once ?w = Some (w', []) \<and>
         state w' = state ?w \<and>
         calls is_program (added ?w w') = 0 \<and>
         flash w' = flash ?w"
    by (intro exI [of _ w']) simp
qed

section \<open>Sensor sessions of the run modes\<close>

lemma ShowCurrent_simps [simp]:
  "state (ShowCurrent w) = state w"
  "flash (ShowCurrent w) = flash w"
  "iCO2 (ShowCurrent w) = iCO2 w"
  "iSample (ShowCurrent w) = iSample w"
  by (simp_all add: ShowCurrent_def Let_def)

lemma ShowCurrent_trace:
  "\<exists>x. trace (ShowCurrent w) = trace w @ [I2CSetSpeed 400000, drawReading (iCO2 w) x]"
  by (simp add: ShowCurrent_def Let_def)

lemma led_cue_simps [simp]:
  "state (led_cue w) = state w"
  by (simp_all add: led_cue_def)


lemma sensor_quiet:
  "\<forall>e\<in>set t. \<not> is_start e \<and> \<not> is_stop e \<Longrightarrow> foldl sensor_step ph t = ph"
  by (induction t arbitrary: ph) (simp_all add: sensor_step_def)

lemma sensor_phase_idle:
  "\<forall>e\<in>set t. \<not> is_start e \<and> \<not> is_stop e \<Longrightarrow> sensor_phase t = Idle"
  by (simp add: sensor_phase_def sensor_quiet)

lemma sensor_phase_session:
  assumes "\<forall>e\<in>set t1. \<not> is_start e \<and> \<not> is_stop e"
    "\<forall>e\<in>set t2. \<not> is_start e \<and> \<not> is_stop e"
    "\<forall>e\<in>set t3. \<not> is_start e \<and> \<not> is_stop e"
  shows "sensor_phase (t1 @ scd41_start m # t2 @ scd41_stop # t3) = Stopped"
  using assms
  by (simp add: sensor_phase_def sensor_quiet sensor_step_def is_start_def is_stop_def)









lemma continuous_sample_trace:
  "\<exists>t. trace (continuous_sample w) = trace w @ t \<and> (\<forall>e\<in>set t. untracked e) \<and>
       (iMode (state w) = MODE_CONTINUOUS \<longrightarrow> oledPower False \<notin> set t)"
proof -
  let ?w1 = "(getSample (emit (I2CInit 50000) w))\<lparr>iSample := iSample w + 1\<rparr>"
  let ?g = "iSample w + 1 = 16 \<and> iMode (state w) \<noteq> MODE_CONTINUOUS"
  let ?w2 = "if ?g then emit (oledPower False) ?w1 else ?w1"
  have c: "continuous_sample w = ShowCurrent ?w2"
    by (simp add: continuous_sample_def Let_def)
  from ShowCurrent_trace [of ?w2] obtain x where
    x: "trace (ShowCurrent ?w2) = trace ?w2 @ [I2CSetSpeed 400000, drawReading (iCO2 ?w2) x]"
    by blast
  let ?t = "[I2CInit 50000, scd41_getSample] @ (if ?g then [oledPower False] else [])
              @ [I2CSetSpeed 400000, drawReading (iCO2 ?w2) x]"
  have "trace (continuous_sample w) = trace w @ ?t"
    unfolding c x by simp
  moreover have "\<forall>e\<in>set ?t. untracked e"
    by (simp add: untracked_def)
  moreover have "iMode (state w) = MODE_CONTINUOUS \<longrightarrow> oledPower False \<notin> set ?t"
    by simp
  ultimately show ?thesis by blast
qed

lemma continuous_sample_state [simp]: "state (continuous_sample w) = state w"
  by (simp add: continuous_sample_def Let_def)

lemma continuous_loop_events:
  "continuous_loop i bs w = Some (w', bs') \<Longrightarrow>
     \<exists>t. trace w' = trace w @ t @ [scd41_stop] \<and> (\<forall>e\<in>set t. untracked e) \<and>
         (iMode (state w) = MODE_CONTINUOUS \<longrightarrow> oledPower False \<notin> set t) \<and>
         state w' = state w"
proof (induction bs arbitrary: i w)
  case Nil
  then show ?case by simp
next
  case (Cons p ps)
  let ?w1 = "emit (Standby82ms 3) w"
  show ?case
  proof (cases "GetButtons p = 3")
    case True
    with Cons.prems have w': "w' = emit scd41_stop (emit (I2CInit 50000) ?w1)"
      by (auto simp: Let_def)
    let ?t = "[Standby82ms 3, I2CInit 50000]"
    have "trace w' = trace w @ ?t @ [scd41_stop]" using w' by simp
    moreover have "\<forall>e\<in>set ?t. untracked e" by (simp add: untracked_def)
    moreover have "oledPower False \<notin> set ?t" by simp
    moreover have "state w' = state w" using w' by simp
    ultimately show ?thesis by blast
  next
    case False
    let ?w2 = "if i + 3 < 61 then ?w1 else continuous_sample ?w1"
    from continuous_sample_trace [of ?w1] obtain tc where
      tc: "trace (continuous_sample ?w1) = trace ?w1 @ tc" "\<forall>e\<in>set tc. untracked e"
        "iMode (state w) = MODE_CONTINUOUS \<longrightarrow> oledPower False \<notin> set tc"
      by auto
    let ?t2 = "Standby82ms 3 # (if i + 3 < 61 then [] else tc)"
    have t2: "trace ?w2 = trace w @ ?t2" using tc(1) by simp
    have u2: "\<forall>e\<in>set ?t2. untracked e" using tc(2) by (simp add: untracked_def)
    have p2: "iMode (state w) = MODE_CONTINUOUS \<longrightarrow> oledPower False \<notin> set ?t2"
      using tc(3) by simp
    have s2: "state ?w2 = state w" by simp
    from Cons.prems False
    have "continuous_loop (if i + 3 < 61 then i + 3 else 0) ps ?w2 = Some (w', bs')"
      by (simp add: Let_def split: if_splits)
    from Cons.IH [OF this] obtain t where
      t: "trace w' = trace ?w2 @ t @ [scd41_stop]" "\<forall>e\<in>set t. untracked e"
        "iMode (state ?w2) = MODE_CONTINUOUS \<longrightarrow> oledPower False \<notin> set t"
        "state w' = state ?w2"
      by blast
    have "trace w' = trace w @ (?t2 @ t) @ [scd41_stop]"
      using t(1) t2 by simp
    moreover have "\<forall>e\<in>set (?t2 @ t). untracked e"
      using t(2) u2 by auto
    moreover have "iMode (state w) = MODE_CONTINUOUS \<longrightarrow> oledPower False \<notin> set (?t2 @ t)"
      using t(3) p2 s2 by auto
    moreover have "state w' = state w" using t(4) s2 by simp
    ultimately show ?thesis by blast
  qed
qed

lemma RunContinuous_events:
  assumes "RunContinuous bs w = Some (w', bs')"
  shows "\<exists>t1 m t2. trace w' = trace w @ t1 @ scd41_start m # t2 @ [scd41_stop] \<and>
           (\<forall>e\<in>set t1. untracked e) \<and> (\<forall>e\<in>set t2. untracked e) \<and>
           (iMode (state w) = MODE_CONTINUOUS \<longrightarrow> oledPower False \<notin> set (t1 @ t2)) \<and>
           state w' = state w"
proof -
  let ?w0 = "emit (Standby82ms 59) (emit (scd41_start SCD_POWERMODE_NORMAL) (emit (I2CSetSpeed 50000) w))"
  from continuous_sample_trace [of ?w0] obtain tc where
    tc: "trace (continuous_sample ?w0) = trace ?w0 @ tc" "\<forall>e\<in>set tc. untracked e"
      "iMode (state w) = MODE_CONTINUOUS \<longrightarrow> oledPower False \<notin> set tc"
    by auto
  from assms have "continuous_loop 0 bs (continuous_sample ?w0) = Some (w', bs')"
    by (simp add: RunContinuous_def Let_def)
  from continuous_loop_events [OF this] obtain t where
    t: "trace w' = trace (continuous_sample ?w0) @ t @ [scd41_stop]" "\<forall>e\<in>set t. untracked e"
      "iMode (state w) = MODE_CONTINUOUS \<longrightarrow> oledPower False \<notin> set t"
      "state w' = state w"
    by auto
  let ?t2 = "Standby82ms 59 # tc @ t"
  have "trace w' = trace w @ [I2CSetSpeed 50000] @ scd41_start SCD_POWERMODE_NORMAL # ?t2 @ [scd41_stop]"
    using t(1) tc(1) by simp
  moreover have "\<forall>e\<in>set [I2CSetSpeed 50000]. untracked e" by (simp add: untracked_def)
  moreover have "\<forall>e\<in>set ?t2. untracked e" using t(2) tc(2) by (auto simp: untracked_def)
  moreover have "iMode (state w) = MODE_CONTINUOUS \<longrightarrow> oledPower False \<notin> set ([I2CSetSpeed 50000] @ ?t2)"
    using t(3) tc(3) by auto
  ultimately show ?thesis using t(4) by blast
qed

lemma calibrate_loop_neg: "i < 0 \<Longrightarrow> calibrate_loop i bs w = Some (False, w, bs)"
  by (cases bs) simp_all

lemma calibrate_loop_events:
  "calibrate_loop i bs w = Some (q, w', bs') \<Longrightarrow>
     \<exists>t. trace w' = trace w @ t @ (if q then [scd41_stop] else []) \<and>
         (\<forall>e\<in>set t. untracked e \<or> is_time e) \<and> (q \<longrightarrow> shown t \<noteq> [])"
proof (induction bs arbitrary: i w)
  case Nil
  then show ?case by (simp split: if_splits)
next
  case (Cons p ps)
  show ?case
  proof (cases "0 \<le> i")
    case False
    with Cons.prems show ?thesis by simp
  next
    case True
    show ?thesis
    proof (cases "GetButtons p = 3")
      case True
      with \<open>0 \<le> i\<close> Cons.prems
      have "q" "trace w' = trace w @ [oledWriteStringCustom (time_string i)] @ [scd41_stop]"
        by (auto simp: Let_def)
      moreover have "\<forall>e\<in>set [oledWriteStringCustom (time_string i)]. untracked e \<or> is_time e"
        by (simp add: is_time_def)
      moreover have "shown [oledWriteStringCustom (time_string i)] \<noteq> []" by simp
      ultimately show ?thesis by (intro exI [of _ "[oledWriteStringCustom (time_string i)]"]) simp
    next
      case False
      let ?w2 = "emit (Delay_Ms 1000) (ShowTime i w)"
      from Cons.prems \<open>0 \<le> i\<close> False
      have "calibrate_loop (i - 1) ps ?w2 = Some (q, w', bs')"
        by (simp add: Let_def)
      from Cons.IH [OF this] obtain t where
        t: "trace w' = trace ?w2 @ t @ (if q then [scd41_stop] else [])"
           "\<forall>e\<in>set t. untracked e \<or> is_time e" "q \<longrightarrow> shown t \<noteq> []"
        by blast
      let ?t = "oledWriteStringCustom (time_string i) # Delay_Ms 1000 # t"
      have "trace w' = trace w @ ?t @ (if q then [scd41_stop] else [])"
        using t(1) by simp
      moreover have "\<forall>e\<in>set ?t. untracked e \<or> is_time e"
        using t(2) by (auto simp: is_time_def untracked_def)
      moreover have "q \<longrightarrow> shown ?t \<noteq> []" by simp
      ultimately show ?thesis by blast
    qed
  qed
qed

text \<open>The events of a countdown from \<open>i\<close> that is not interrupted.\<close>

lemma calibrate_loop_run:
  assumes "0 \<le> i" "nat i < length bs" "\<forall>b\<in>set (take (nat i + 1) bs). GetButtons b \<noteq> 3"
  shows "\<exists>w'. calibrate_loop i bs w = Some (False, w', drop (nat i + 1) bs) \<and>
           trace w' = trace w @
             concat (map (\<lambda>k. [oledWriteStringCustom (time_string k), Delay_Ms 1000]) (rev [0..i]))"
  using assms
proof (induction bs arbitrary: i w)
  case Nil
  then show ?case by simp
next
  case (Cons p ps)
  from Cons.prems have np: "GetButtons p \<noteq> 3" by simp
  let ?w2 = "emit (Delay_Ms 1000) (ShowTime i w)"
  have step: "calibrate_loop i (p # ps) w = calibrate_loop (i - 1) ps ?w2"
    using Cons.prems(1) np by (simp add: Let_def)
  show ?case
  proof (cases "i = 0")
    case True
    then have "calibrate_loop (i - 1) ps ?w2 = Some (False, ?w2, ps)"
      by (simp add: calibrate_loop_neg)
    with step True show ?thesis by simp
  next
    case False
    with Cons.prems have pos: "0 \<le> i - 1" "nat (i - 1) < length ps" by auto
    have eq: "nat (i - 1) + 1 = nat i" using False Cons.prems(1) by simp
    from Cons.prems(3) have "\<forall>b\<in>set (take (nat i) ps). GetButtons b \<noteq> 3"
      by simp
    then have nq: "\<forall>b\<in>set (take (nat (i - 1) + 1) ps). GetButtons b \<noteq> 3"
      by (simp only: eq)
    from Cons.IH [OF pos nq, of ?w2]
    obtain w' where r: "calibrate_loop (i - 1) ps ?w2 = Some (False, w', drop (nat (i - 1) + 1) ps)"
      "trace w' = trace ?w2 @
         concat (map (\<lambda>k. [oledWriteStringCustom (time_string k), Delay_Ms 1000]) (rev [0..i - 1]))"
      by blast
    have d: "drop (nat (i - 1) + 1) ps = drop (nat i + 1) (p # ps)"
      by (simp only: eq) simp
    have "trace w' = trace w @
        concat (map (\<lambda>k. [oledWriteStringCustom (time_string k), Delay_Ms 1000]) (rev [0..i]))"
      using r(2) Cons.prems(1) by (simp add: rev_upto)
    then show ?thesis
      using step r(1) d by metis
  qed
qed

lemma wait_release_run:
  assumes "\<forall>b\<in>set rel. GetButtons b \<noteq> 0" "GetButtons q = 0"
  shows "\<exists>w'. wait_release (rel @ q # bs) w = Some (w', bs) \<and>
           trace w' = trace w @ replicate (length rel) (Delay_Ms 20)"
  using assms(1)
proof (induction rel arbitrary: w)
  case Nil
  then show ?case using assms(2) by simp
next
  case (Cons b rel)
  then obtain w' where "wait_release (rel @ q # bs) (emit (Delay_Ms 20) w) = Some (w', bs)"
    "trace w' = trace (emit (Delay_Ms 20) w) @ replicate (length rel) (Delay_Ms 20)"
    by (metis list.set_intros(2))
  with Cons.prems show ?case by simp
qed

lemma wait_press_run:
  assumes "\<forall>b\<in>set idle. GetButtons b = 0" "GetButtons p \<noteq> 0"
  shows "\<exists>w'. wait_press (idle @ p # bs) w = Some (GetButtons p, w', bs) \<and>
           trace w' = trace w @ replicate (length idle) (Delay_Ms 20)"
  using assms(1)
proof (induction idle arbitrary: w)
  case Nil
  then show ?case using assms(2) by simp
next
  case (Cons b idle)
  then obtain w' where "wait_press (idle @ p # bs) (emit (Delay_Ms 20) w) = Some (GetButtons p, w', bs)"
    "trace w' = trace (emit (Delay_Ms 20) w) @ replicate (length idle) (Delay_Ms 20)"
    by (metis list.set_intros(2))
  with Cons.prems show ?case by simp
qed

lemma wait_press_none:
  "\<forall>b\<in>set idle. GetButtons b = 0 \<Longrightarrow> wait_press idle w = None"
  by (induction idle arbitrary: w) simp_all

lemma RunCalibrate_events:
  assumes "RunCalibrate S r bs w = Some (w', bs')"
  shows "(sensor_phase (added w w') = Idle \<and> shown (added w w') = []) \<or>
         sensor_phase (added w w') = Stopped"
proof -
  let ?w0 = "emit (oledWriteString 0 56 ''show success or fail'')
              (emit (oledWriteString 0 48 ''finishes, result will'')
              (emit (oledWriteString 0 40 ''to start. When timer'')
              (emit (oledWriteString 0 32 ''Press either button'')
              (emit (oledWriteString 0 24 ''free air environment.'')
              (emit (oledWriteString 0 16 ''Place device in a'')
              (emit (oledWriteString 10 0 ''Calibrate'') (emit oledFill w)))))))"
  have h: "trace ?w0 = trace w @ calibrate_prompt" by (simp add: calibrate_prompt_def)
  have hu: "\<forall>e\<in>set calibrate_prompt. untracked e"
    by (simp add: calibrate_prompt_def untracked_def)
  from assms obtain w1 bs1 where r1: "wait_release bs ?w0 = Some (w1, bs1)"
    by (auto simp: RunCalibrate_def Let_def split: option.splits)
  from assms r1 obtain j w2 bs2 where r2: "wait_press bs1 w1 = Some (j, w2, bs2)"
    by (auto simp: RunCalibrate_def Let_def split: option.splits)
  from wait_release_events [OF r1] obtain ta where
    ta: "trace w1 = trace ?w0 @ ta" "\<forall>e\<in>set ta. untracked e" by blast
  from wait_press_events [OF r2] obtain tb where
    tb: "trace w2 = trace w1 @ tb" "\<forall>e\<in>set tb. untracked e" by blast
  have t2: "trace w2 = trace w @ (calibrate_prompt @ ta @ tb)"
    using ta(1) tb(1) h by simp
  have u2: "\<forall>e\<in>set (calibrate_prompt @ ta @ tb). untracked e"
    using ta(2) tb(2) hu by auto
  show ?thesis
  proof (cases "j = 3")
    case True
    with assms r1 r2 have "w' = w2" by (simp add: RunCalibrate_def Let_def)
    with t2 have "added w w' = calibrate_prompt @ ta @ tb" by (simp add: added_def)
    moreover have "sensor_phase (calibrate_prompt @ ta @ tb) = Idle"
      using u2 by (intro sensor_phase_idle) auto
    moreover have "shown (calibrate_prompt @ ta @ tb) = []"
      using u2 by (rule shown_untracked)
    ultimately show ?thesis by simp
  next
    case False
    let ?w3 = "emit (scd41_start SCD_POWERMODE_NORMAL) (emit (I2CSetSpeed 50000)
                (emit (oledWriteString 0 0 ''Calibration running'') (emit oledFill w2)))"
    let ?t1 = "calibrate_prompt @ ta @ tb @
                 [oledFill, oledWriteString 0 0 ''Calibration running'', I2CSetSpeed 50000]"
    have t3: "trace ?w3 = trace w @ ?t1 @ [scd41_start SCD_POWERMODE_NORMAL]"
      using t2 by simp
    have u3: "\<forall>e\<in>set ?t1. untracked e"
      using u2 by (auto simp: untracked_def)
    from assms r1 r2 False obtain q w4 bs4 where l: "calibrate_loop 210 bs2 ?w3 = Some (q, w4, bs4)"
      by (auto simp: RunCalibrate_def Let_def split: option.splits)
    from calibrate_loop_events [OF l] obtain t where
      t: "trace w4 = trace ?w3 @ t @ (if q then [scd41_stop] else [])"
         "\<forall>e\<in>set t. untracked e \<or> is_time e"
      by blast
    show ?thesis
    proof (cases q)
      case True
      with assms r1 r2 False l have "w' = w4" by (simp add: RunCalibrate_def Let_def)
      then have "trace w' = trace w @ (?t1 @ scd41_start SCD_POWERMODE_NORMAL # t @ scd41_stop # [])"
        using t(1) t3 True by simp
      then have "added w w' = ?t1 @ scd41_start SCD_POWERMODE_NORMAL # t @ scd41_stop # []"
        by (rule added_append)
      moreover have "sensor_phase (?t1 @ scd41_start SCD_POWERMODE_NORMAL # t @ scd41_stop # []) = Stopped"
        using u3 t(2) by (intro sensor_phase_session) auto
      ultimately show ?thesis by simp
    next
      case False
      let ?m = "oledWriteString 0 32 (if r = S then ''Success!'' else ''Failed'')"
      let ?w5 = "emit (oledWriteString 0 56 ''Press button to exit'') (emit ?m
                  (emit (scd41_recalibrate 423) (emit scd41_stop (emit (oledClearLine 48)
                  (emit (oledClearLine 40) (emit (oledClearLine 32) (emit (oledClearLine 24) w4)))))))"
      from assms r1 r2 \<open>j \<noteq> 3\<close> l False obtain j' where
        r5: "wait_press bs4 ?w5 = Some (j', w', bs')"
        by (auto simp: RunCalibrate_def Let_def split: option.splits if_splits)
      from wait_press_events [OF r5] obtain tc where
        tc: "trace w' = trace ?w5 @ tc" "\<forall>e\<in>set tc. untracked e" by blast
      let ?t2 = "t @ [oledClearLine 24, oledClearLine 32, oledClearLine 40, oledClearLine 48]"
      let ?t3 = "[scd41_recalibrate 423, ?m, oledWriteString 0 56 ''Press button to exit''] @ tc"
      have "trace w' = trace w @ (?t1 @ scd41_start SCD_POWERMODE_NORMAL # ?t2 @ scd41_stop # ?t3)"
        using tc(1) t(1) t3 False by simp
      then have a: "added w w' = ?t1 @ scd41_start SCD_POWERMODE_NORMAL # ?t2 @ scd41_stop # ?t3"
        by (rule added_append)
      have "\<forall>e\<in>set ?t2. untracked e \<or> is_time e"
        using t(2) by (auto simp: untracked_def)
      then have q2: "\<forall>e\<in>set ?t2. \<not> is_start e \<and> \<not> is_stop e"
        by auto
      have "\<forall>e\<in>set tc. \<not> is_start e \<and> \<not> is_stop e"
        using tc(2) by auto
      then have q3: "\<forall>e\<in>set ?t3. \<not> is_start e \<and> \<not> is_stop e"
        by (simp add: is_start_def is_stop_def)
      have q1: "\<forall>e\<in>set ?t1. \<not> is_start e \<and> \<not> is_stop e"
        using u3 by auto
      have "sensor_phase (?t1 @ scd41_start SCD_POWERMODE_NORMAL # ?t2 @ scd41_stop # ?t3) = Stopped"
        using q1 q2 q3 by (rule sensor_phase_session)
      with a show ?thesis by simp
    qed
  qed
qed





lemma the_result: "f \<noteq> None \<Longrightarrow> f = Some (fst (the f), snd (the f))"
  by auto

section \<open>Calibration\<close>

lemma countdown_shown: "shown (countdown_events i) = map time_string (rev [0..i])"
proof -
  have "shown (concat (map (\<lambda>k. [oledWriteStringCustom (time_string k), Delay_Ms 1000]) xs))
          = map time_string xs" for xs
    by (induction xs) (simp_all add: time_of_def)
  then show ?thesis by (simp add: countdown_events_def)
qed

lemma countdown_seconds: "calls is_second (countdown_events i) = length [0..i]"
proof -
  have "calls is_second (concat (map (\<lambda>k. [oledWriteStringCustom (time_string k), Delay_Ms 1000]) xs))
          = length xs" for xs
    by (induction xs) (simp_all add: is_second_def)
  from this [of "rev [0..i]"] show ?thesis by (simp add: countdown_events_def)
qed

lemma countdown_no_recalibrate: "scd41_recalibrate n \<notin> set (countdown_events i)"
  by (auto simp: countdown_events_def)

lemma delays_simps [simp]:
  "shown (replicate n (Delay_Ms 20)) = []"
  "calls is_second (replicate n (Delay_Ms 20)) = 0"
  by (induction n) (simp_all add: time_of_def is_second_def)

lemma calibrate_loop_run211:
  assumes "length ticks = 211" "\<forall>b\<in>set ticks. GetButtons b \<noteq> 3"
  shows "\<exists>w'. calibrate_loop 210 (ticks @ bs) w = Some (False, w', bs) \<and>
           trace w' = trace w @ countdown_events 210"
proof -
  have "\<exists>w'. calibrate_loop 210 (ticks @ bs) w = Some (False, w', drop (nat 210 + 1) (ticks @ bs)) \<and>
           trace w' = trace w @
             concat (map (\<lambda>k. [oledWriteStringCustom (time_string k), Delay_Ms 1000]) (rev [0..210]))"
    using assms by (intro calibrate_loop_run) simp_all
  then show ?thesis using assms(1) by (simp add: countdown_events_def)
qed

lemma RunCalibrate_trace:
  assumes "\<forall>b\<in>set rel. GetButtons b \<noteq> 0" "GetButtons q = 0"
    and "\<forall>b\<in>set idle1. GetButtons b = 0" "GetButtons p \<noteq> 0" "GetButtons p \<noteq> 3"
    and "length ticks = 211" "\<forall>b\<in>set ticks. GetButtons b \<noteq> 3"
  shows "\<exists>w5. trace w5 = trace w @ calibrate_prompt @
                  replicate (length rel + length idle1) (Delay_Ms 20) @
                  [oledFill, oledWriteString 0 0 ''Calibration running'', I2CSetSpeed 50000,
                   scd41_start SCD_POWERMODE_NORMAL] @
                  countdown_events 210 @ calibrate_finish S r \<and>
              RunCalibrate S r (rel @ q # idle1 @ p # ticks @ bs) w =
                (case wait_press bs w5 of None \<Rightarrow> None | Some (j, w, bs) \<Rightarrow> Some (w, bs))"
proof -
  let ?w0 = "emit (oledWriteString 0 56 ''show success or fail'')
              (emit (oledWriteString 0 48 ''finishes, result will'')
              (emit (oledWriteString 0 40 ''to start. When timer'')
              (emit (oledWriteString 0 32 ''Press either button'')
              (emit (oledWriteString 0 24 ''free air environment.'')
              (emit (oledWriteString 0 16 ''Place device in a'')
              (emit (oledWriteString 10 0 ''Calibrate'') (emit oledFill w)))))))"
  have h: "trace ?w0 = trace w @ calibrate_prompt" by (simp add: calibrate_prompt_def)
  from wait_release_run [OF assms(1,2), of "idle1 @ p # ticks @ bs" ?w0] obtain w1 where
    r1: "wait_release (rel @ q # idle1 @ p # ticks @ bs) ?w0 = Some (w1, idle1 @ p # ticks @ bs)"
        "trace w1 = trace ?w0 @ replicate (length rel) (Delay_Ms 20)"
    by blast
  from wait_press_run [OF assms(3,4), of "ticks @ bs" w1] obtain w2 where
    r2: "wait_press (idle1 @ p # ticks @ bs) w1 = Some (GetButtons p, w2, ticks @ bs)"
        "trace w2 = trace w1 @ replicate (length idle1) (Delay_Ms 20)"
    by blast
  let ?w3 = "emit (scd41_start SCD_POWERMODE_NORMAL) (emit (I2CSetSpeed 50000)
              (emit (oledWriteString 0 0 ''Calibration running'') (emit oledFill w2)))"
  from calibrate_loop_run211 [OF assms(6,7), of bs ?w3] obtain w4 where
    r4: "calibrate_loop 210 (ticks @ bs) ?w3 = Some (False, w4, bs)"
        "trace w4 = trace ?w3 @ countdown_events 210"
    by blast
  let ?w5 = "emit (oledWriteString 0 56 ''Press button to exit'')
              (emit (oledWriteString 0 32 (if r = S then ''Success!'' else ''Failed''))
              (emit (scd41_recalibrate 423) (emit scd41_stop (emit (oledClearLine 48)
              (emit (oledClearLine 40) (emit (oledClearLine 32) (emit (oledClearLine 24) w4)))))))"
  have "trace ?w5 = trace w @ calibrate_prompt @
                  replicate (length rel + length idle1) (Delay_Ms 20) @
                  [oledFill, oledWriteString 0 0 ''Calibration running'', I2CSetSpeed 50000,
                   scd41_start SCD_POWERMODE_NORMAL] @
                  countdown_events 210 @ calibrate_finish S r"
    using r4(2) r2(2) r1(2) h by (simp add: calibrate_finish_def replicate_add)
  moreover have "RunCalibrate S r (rel @ q # idle1 @ p # ticks @ bs) w =
                (case wait_press bs ?w5 of None \<Rightarrow> None | Some (j, w, bs) \<Rightarrow> Some (w, bs))"
    using r1(1) r2(1) r4(1) assms(5)
    by (simp add: RunCalibrate_def Let_def if_distrib [of "\<lambda>m. emit (oledWriteString 0 32 m) _"]
        cong: if_cong)
  ultimately show ?thesis by blast
qed

lemma length_upto_210: "length [0..210::int] = 211"
  by simp

lemma calibrate_session_facts:
  assumes "t = calibrate_prompt @ replicate n (Delay_Ms 20) @
                 [oledFill, oledWriteString 0 0 ''Calibration running'', I2CSetSpeed 50000,
                  scd41_start SCD_POWERMODE_NORMAL] @
                 countdown_events 210 @ calibrate_finish S r @ replicate k (Delay_Ms 20)"
  shows "shown t = map time_string (rev [0..210])" "calls is_second t = 211"
    "scd41_recalibrate 420 \<notin> set t" "scd41_recalibrate 423 \<in> set t"
  unfolding assms
  by (simp_all add: calibrate_prompt_def calibrate_finish_def countdown_shown countdown_seconds
      countdown_no_recalibrate time_of_def is_second_def)

text \<open>
  Claim C6, as the code has it.  Once the buttons were released and a single
  button was pressed at the prompt, and with no reading of both buttons during
  the countdown, \<open>RunCalibrate\<close> starts the sensor in normal power, shows the
  211 times 3:30 down to 0:00 with one second of delay after each, stops the
  sensor, recalibrates against 423 ppm, shows \<open>Success!\<close> when the result is
  \<open>SCD_SUCCESS\<close> and \<open>Failed\<close> otherwise, and returns at the first reading with
  a button pressed; until then it does not return.
\<close>

theorem RunCalibrate_session:
  assumes "\<forall>b\<in>set rel. GetButtons b \<noteq> 0" "GetButtons q = 0"
    and "\<forall>b\<in>set idle1. GetButtons b = 0" "GetButtons p \<noteq> 0" "GetButtons p \<noteq> 3"
    and "length ticks = 211" "\<forall>b\<in>set ticks. GetButtons b \<noteq> 3"
    and "\<forall>b\<in>set idle2. GetButtons b = 0" "GetButtons e \<noteq> 0"
  shows "\<exists>w'. RunCalibrate S r (rel @ q # idle1 @ p # ticks @ idle2 @ e # rest) w = Some (w', rest) \<and>
           added w w' = calibrate_prompt @
               replicate (length rel + length idle1) (Delay_Ms 20) @
               [oledFill, oledWriteString 0 0 ''Calibration running'', I2CSetSpeed 50000,
                scd41_start SCD_POWERMODE_NORMAL] @
               countdown_events 210 @ calibrate_finish S r @
               replicate (length idle2) (Delay_Ms 20) \<and>
           shown (added w w') = map time_string (rev [0..210]) \<and>
           length (shown (added w w')) = 211 \<and>
           calls is_second (added w w') = 211 \<and>
           RunCalibrate S r (rel @ q # idle1 @ p # ticks @ idle2) w = None"
proof -
  let ?t5 = "calibrate_prompt @ replicate (length rel + length idle1) (Delay_Ms 20) @
               [oledFill, oledWriteString 0 0 ''Calibration running'', I2CSetSpeed 50000,
                scd41_start SCD_POWERMODE_NORMAL] @
               countdown_events 210 @ calibrate_finish S r"
  from RunCalibrate_trace [OF assms(1-7), of w S r "idle2 @ e # rest"] obtain w5 where
    a: "trace w5 = trace w @ ?t5"
       "RunCalibrate S r (rel @ q # idle1 @ p # ticks @ idle2 @ e # rest) w =
          (case wait_press (idle2 @ e # rest) w5 of None \<Rightarrow> None | Some (j, w, bs) \<Rightarrow> Some (w, bs))"
    by blast
  from RunCalibrate_trace [OF assms(1-7), of w S r idle2] obtain w6 where
    b: "RunCalibrate S r (rel @ q # idle1 @ p # ticks @ idle2) w =
          (case wait_press idle2 w6 of None \<Rightarrow> None | Some (j, w, bs) \<Rightarrow> Some (w, bs))"
    by blast
  have none: "RunCalibrate S r (rel @ q # idle1 @ p # ticks @ idle2) w = None"
    using b wait_press_none [OF assms(8), of w6] by simp
  from wait_press_run [OF assms(8,9), of rest w5] obtain w' where
    c: "wait_press (idle2 @ e # rest) w5 = Some (GetButtons e, w', rest)"
       "trace w' = trace w5 @ replicate (length idle2) (Delay_Ms 20)"
    by blast
  have run: "RunCalibrate S r (rel @ q # idle1 @ p # ticks @ idle2 @ e # rest) w = Some (w', rest)"
    using a(2) c(1) by simp
  have "trace w' = trace w @ (?t5 @ replicate (length idle2) (Delay_Ms 20))"
    using a(1) c(2) by simp
  then have ad: "added w w' = calibrate_prompt @
               replicate (length rel + length idle1) (Delay_Ms 20) @
               [oledFill, oledWriteString 0 0 ''Calibration running'', I2CSetSpeed 50000,
                scd41_start SCD_POWERMODE_NORMAL] @
               countdown_events 210 @ calibrate_finish S r @
               replicate (length idle2) (Delay_Ms 20)"
    by (simp add: added_def)
  note f = calibrate_session_facts [OF ad]
  have len: "length (shown (added w w')) = 211"
    by (simp only: f(1) length_map length_rev length_upto_210)
  from run ad f(1) len f(2) none show ?thesis by blast
qed

lemma calibration_input_shape:
  "calibration_input = [] @ btn_none # [] @ btn_1 # replicate 211 btn_none @ [] @ btn_1 # []"
  by (simp add: calibration_input_def)

theorem RunCalibrate_session_counterexample:
  "RunCalibrate 0 0 calibration_input calibrate_world \<noteq> None \<and>
   calls is_second (added calibrate_world
      (fst (the (RunCalibrate 0 0 calibration_input calibrate_world)))) = 211 \<and>
   length (shown (added calibrate_world
      (fst (the (RunCalibrate 0 0 calibration_input calibrate_world))))) = 211 \<and>
   hd (shown (added calibrate_world
      (fst (the (RunCalibrate 0 0 calibration_input calibrate_world))))) = time_string 210 \<and>
   scd41_recalibrate 420 \<notin> set (added calibrate_world
      (fst (the (RunCalibrate 0 0 calibration_input calibrate_world)))) \<and>
   scd41_recalibrate 423 \<in> set (added calibrate_world
      (fst (the (RunCalibrate 0 0 calibration_input calibrate_world))))"
proof -
  have g: "\<forall>b\<in>set []. GetButtons b \<noteq> 0" "GetButtons btn_none = 0"
    "\<forall>b\<in>set []. GetButtons b = 0" "GetButtons btn_1 \<noteq> 0" "GetButtons btn_1 \<noteq> 3"
    "length (replicate 211 btn_none) = 211" "\<forall>b\<in>set (replicate 211 btn_none). GetButtons b \<noteq> 3"
    by simp_all
  from RunCalibrate_trace [OF g, of calibrate_world 0 0 "[btn_1]"] obtain w5 where
    a: "trace w5 = trace calibrate_world @ calibrate_prompt @
                  replicate (length ([]::pins list) + length ([]::pins list)) (Delay_Ms 20) @
                  [oledFill, oledWriteString 0 0 ''Calibration running'', I2CSetSpeed 50000,
                   scd41_start SCD_POWERMODE_NORMAL] @
                  countdown_events 210 @ calibrate_finish 0 0"
       "RunCalibrate 0 0 ([] @ btn_none # [] @ btn_1 # replicate 211 btn_none @ [btn_1]) calibrate_world =
          (case wait_press [btn_1] w5 of None \<Rightarrow> None | Some (j, w, bs) \<Rightarrow> Some (w, bs))"
    by blast
  have run: "RunCalibrate 0 0 calibration_input calibrate_world = Some (w5, [])"
    using a(2) by (simp add: calibration_input_def)
  have "trace w5 = trace calibrate_world @ (calibrate_prompt @ replicate 0 (Delay_Ms 20) @
                 [oledFill, oledWriteString 0 0 ''Calibration running'', I2CSetSpeed 50000,
                  scd41_start SCD_POWERMODE_NORMAL] @
                 countdown_events 210 @ calibrate_finish 0 0 @ replicate 0 (Delay_Ms 20))"
    using a(1) by simp
  then have ad: "added calibrate_world w5 = calibrate_prompt @ replicate 0 (Delay_Ms 20) @
                 [oledFill, oledWriteString 0 0 ''Calibration running'', I2CSetSpeed 50000,
                  scd41_start SCD_POWERMODE_NORMAL] @
                 countdown_events 210 @ calibrate_finish 0 0 @ replicate 0 (Delay_Ms 20)"
    by (rule added_append)
  note f = calibrate_session_facts [OF ad]
  have len: "length (shown (added calibrate_world w5)) = 211"
    by (simp only: f(1) length_map length_rev length_upto_210)
  have "rev [0..210::int] = 210 # rev [0..209]"
    using rev_upto [of 0 210] by simp
  then have hd: "hd (shown (added calibrate_world w5)) = time_string 210"
    by (simp only: f(1) list.map list.sel)
  from run f(2) len hd f(3) f(4) show ?thesis by simp
qed

theorem RunCalibrate_session_witness:
  "GetButtons btn_none = 0 \<and> GetButtons btn_1 \<noteq> 0 \<and> GetButtons btn_1 \<noteq> 3 \<and>
   length (replicate 211 btn_none) = 211 \<and>
   list_all (\<lambda>b. GetButtons b \<noteq> 3) (replicate 211 btn_none) \<and>
   (\<exists>w'. RunCalibrate 0 1 calibration_input calibrate_world = Some (w', []) \<and>
         length (shown (added calibrate_world w')) = 211 \<and>
         calls is_second (added calibrate_world w') = 211 \<and>
         oledWriteString 0 32 ''Failed'' \<in> set (added calibrate_world w'))"
proof -
  have g: "\<forall>b\<in>set []. GetButtons b \<noteq> 0" "GetButtons btn_none = 0"
    "\<forall>b\<in>set []. GetButtons b = 0" "GetButtons btn_1 \<noteq> 0" "GetButtons btn_1 \<noteq> 3"
    "length (replicate 211 btn_none) = 211" "\<forall>b\<in>set (replicate 211 btn_none). GetButtons b \<noteq> 3"
    "\<forall>b\<in>set []. GetButtons b = 0" "GetButtons btn_1 \<noteq> 0"
    by simp_all
  from RunCalibrate_session [OF g, of 0 1 "[]" calibrate_world] obtain w' where
    r: "RunCalibrate 0 1 ([] @ btn_none # [] @ btn_1 # replicate 211 btn_none @ [] @ btn_1 # [])
          calibrate_world = Some (w', [])"
       "added calibrate_world w' = calibrate_prompt @
               replicate (length ([]::pins list) + length ([]::pins list)) (Delay_Ms 20) @
               [oledFill, oledWriteString 0 0 ''Calibration running'', I2CSetSpeed 50000,
                scd41_start SCD_POWERMODE_NORMAL] @
               countdown_events 210 @ calibrate_finish 0 1 @
               replicate (length ([]::pins list)) (Delay_Ms 20)"
       "length (shown (added calibrate_world w')) = 211"
       "calls is_second (added calibrate_world w') = 211"
    by blast
  have "oledWriteString 0 32 ''Failed'' \<in> set (added calibrate_world w')"
    unfolding r(2) by (simp add: calibrate_finish_def)
  moreover have "RunCalibrate 0 1 calibration_input calibrate_world = Some (w', [])"
    using r(1) by (simp add: calibration_input_def)
  ultimately show ?thesis using r(3,4) by (simp add: list_all_iff)
qed

section \<open>Continuous mode: the display stays on\<close>

lemma dispatch_continuous:
  "reaches_continuous w \<Longrightarrow> dispatch S r bs w = RunContinuous bs (banner w)"
  by (simp add: dispatch_def reaches_continuous_def banner_def Let_def)

lemma dispatch_other:
  "\<not> reaches_continuous w \<Longrightarrow>
     dispatch S r bs w = RunTimer bs (banner w) \<or>
     dispatch S r bs w = RunCalibrate S r bs (banner w) \<or>
     dispatch S r bs w = RunLowPower bs (banner w) \<or>
     dispatch S r bs w = RunStealth bs (banner w)"
  by (auto simp add: dispatch_def reaches_continuous_def banner_def Let_def)

lemma enumerated_reaches:
  "enumerated_mode (iMode (state w)) \<Longrightarrow>
     reaches_continuous w \<longleftrightarrow> iMode (state w) = MODE_CONTINUOUS"
  by (auto simp: enumerated_mode_def reaches_continuous_def MODE_CONTINUOUS_def MODE_LOW_POWER_def
      MODE_STEALTH_def MODE_CALIBRATE_def MODE_TIMER_def)

lemma continuous_sample_unguarded:
  "iMode (state w) = MODE_CONTINUOUS \<Longrightarrow>
     continuous_sample w = ShowCurrent ((getSample (emit (I2CInit 50000) w))\<lparr>iSample := iSample w + 1\<rparr>)"
  by (simp add: continuous_sample_def Let_def)

lemma boot_mode:
  assumes "5 \<le> sint (flash w 3) \<and> sint (flash w 3) \<le> 60 \<longrightarrow> enumerated_mode (flash w 0)"
  shows "enumerated_mode (iMode (state (boot w)))"
proof (cases "5 \<le> sint (flash w 3) \<and> sint (flash w 3) \<le> 60")
  case True
  then have "ReadFlash w = w\<lparr>state := persisted (flash w)\<rparr>" by (simp add: ReadFlash_valid)
  with assms True show ?thesis by (simp add: boot_def Let_def persisted_def)
next
  case False
  then have "ReadFlash w = WriteFlash (w\<lparr>state := default_state\<rparr>)" by (rule ReadFlash_invalid)
  then show ?thesis
    by (simp add: boot_def Let_def WriteFlash_state default_state_def enumerated_mode_def)
qed

text \<open>
  Claim C9.  For a mode among the five of the menu, the chain of tests in
  \<open>main\<close> arrives at the continuous loop exactly when the mode is
  Continuous, and every other mode leaves for its own function.  In that loop
  the mode stays Continuous, so the test \<open>iSample == 16 && state.iMode !=
  MODE_CONTINUOUS\<close> never holds: taking a sample is the same as without the
  guarded statement, and a continuous session never switches the display
  off.
\<close>

theorem continuous_guard_dead:
  assumes "enumerated_mode (iMode (state w))"
  shows "(reaches_continuous w \<longleftrightarrow> iMode (state w) = MODE_CONTINUOUS) \<and>
         (reaches_continuous w \<longrightarrow> dispatch S r bs w = RunContinuous bs (banner w)) \<and>
         (\<not> reaches_continuous w \<longrightarrow>
            dispatch S r bs w = RunTimer bs (banner w) \<or>
            dispatch S r bs w = RunCalibrate S r bs (banner w) \<or>
            dispatch S r bs w = RunLowPower bs (banner w) \<or>
            dispatch S r bs w = RunStealth bs (banner w)) \<and>
         (reaches_continuous w \<and> dispatch S r bs w = Some (w', bs') \<longrightarrow>
            oledPower False \<notin> set (added w w') \<and> iMode (state w') = MODE_CONTINUOUS) \<and>
         (iMode (state v) = MODE_CONTINUOUS \<longrightarrow>
            continuous_sample v =
              ShowCurrent ((getSample (emit (I2CInit 50000) v))\<lparr>iSample := iSample v + 1\<rparr>))"
proof (intro conjI impI)
  show "reaches_continuous w \<longleftrightarrow> iMode (state w) = MODE_CONTINUOUS"
    using assms by (rule enumerated_reaches)
next
  assume "reaches_continuous w"
  then show "dispatch S r bs w = RunContinuous bs (banner w)"
    by (rule dispatch_continuous)
next
  assume "\<not> reaches_continuous w"
  then show "dispatch S r bs w = RunTimer bs (banner w) \<or>
            dispatch S r bs w = RunCalibrate S r bs (banner w) \<or>
            dispatch S r bs w = RunLowPower bs (banner w) \<or>
            dispatch S r bs w = RunStealth bs (banner w)"
    by (rule dispatch_other)
next
  assume a: "reaches_continuous w \<and> dispatch S r bs w = Some (w', bs')"
  then have m: "iMode (state (banner w)) = MODE_CONTINUOUS"
    using enumerated_reaches [OF assms] by (simp add: banner_def)
  from a have "RunContinuous bs (banner w) = Some (w', bs')"
    using dispatch_continuous [of w S r bs] by auto
  from RunContinuous_events [OF this] m obtain t1 md t2 where
    t: "trace w' = trace (banner w) @ t1 @ scd41_start md # t2 @ [scd41_stop]"
       "oledPower False \<notin> set (t1 @ t2)" "state w' = state (banner w)"
    by blast
  let ?t = "[oledFill, oledWriteString 0 0 (szMode (iMode (state w))), oledWriteString 0 8 ''Starting...'']
              @ t1 @ scd41_start md # t2 @ [scd41_stop]"
  have "trace w' = trace w @ ?t" using t(1) by (simp add: banner_def)
  then have "added w w' = ?t" by (rule added_append)
  then show "oledPower False \<notin> set (added w w')" using t(2) by simp
  show "iMode (state w') = MODE_CONTINUOUS" using t(3) m by simp
next
  assume "iMode (state v) = MODE_CONTINUOUS"
  then show "continuous_sample v =
      ShowCurrent ((getSample (emit (I2CInit 50000) v))\<lparr>iSample := iSample v + 1\<rparr>)"
    by (rule continuous_sample_unguarded)
qed

theorem continuous_guard_dead_witness:
  "enumerated_mode (iMode (state default_world)) \<and> reaches_continuous default_world \<and>
   dispatch 0 0 [btn_both] default_world \<noteq> None \<and>
   oledPower False \<notin> set (added default_world (fst (the (dispatch 0 0 [btn_both] default_world)))) \<and>
   enumerated_mode (iMode (state (timer_world 5))) \<and> \<not> reaches_continuous (timer_world 5) \<and>
   dispatch 0 0 [btn_both] (timer_world 5) = RunTimer [btn_both] (banner (timer_world 5)) \<and>
   iMode (state default_world) = MODE_CONTINUOUS \<and>
   continuous_sample default_world =
     ShowCurrent ((getSample (emit (I2CInit 50000) default_world))\<lparr>iSample := iSample default_world + 1\<rparr>)"
proof -
  let ?d = "dispatch 0 0 [btn_both] default_world"
  have e: "enumerated_mode (iMode (state default_world))" "iMode (state default_world) = MODE_CONTINUOUS"
    by (simp_all add: default_world_def default_state_def enumerated_mode_def)
  have et: "enumerated_mode (iMode (state (timer_world 5)))"
    by (simp add: timer_world_def enumerated_mode_def)
  have nt: "\<not> reaches_continuous (timer_world 5)"
    by (simp add: reaches_continuous_def timer_world_def)
  have rc: "reaches_continuous default_world"
    by (simp add: reaches_continuous_def default_world_def default_state_def MODE_CONTINUOUS_def
        MODE_TIMER_def MODE_CALIBRATE_def MODE_LOW_POWER_def MODE_STEALTH_def)
  have ne: "?d \<noteq> None"
    by (simp add: dispatch_continuous [OF rc] RunContinuous_def Let_def)
  from continuous_guard_dead [OF e(1), of 0 0 "[btn_both]" "fst (the ?d)" "snd (the ?d)" default_world]
    rc the_result [OF ne] e(2)
  have 1: "oledPower False \<notin> set (added default_world (fst (the ?d)))"
    "continuous_sample default_world =
       ShowCurrent ((getSample (emit (I2CInit 50000) default_world))\<lparr>iSample := iSample default_world + 1\<rparr>)"
    by blast+
  have tm: "iMode (state (timer_world 5)) = MODE_TIMER" by (simp add: timer_world_def)
  have 2: "dispatch 0 0 [btn_both] (timer_world 5) = RunTimer [btn_both] (banner (timer_world 5))"
    using tm by (simp add: dispatch_def banner_def Let_def)
  from continuous_guard_dead [OF et, of 0 0 "[btn_both]" "fst (the ?d)" "snd (the ?d)" default_world] nt
  have 3: "\<not> reaches_continuous (timer_world 5)" by blast
  from e et rc ne 1 2 3 show ?thesis by blast
qed

text \<open>
  Outside the five modes of the menu the chain of tests also ends in the
  continuous loop, and there the guarded statement does run: with a mode word
  of 77 the sixteenth sample switches the display off.
\<close>

lemma continuous_sample_guard_fires:
  "oledPower False \<in> set (added (default_world\<lparr>state := default_state\<lparr>iMode := 77\<rparr>, iSample := 15\<rparr>)
     (continuous_sample (default_world\<lparr>state := default_state\<lparr>iMode := 77\<rparr>, iSample := 15\<rparr>)))"
  by (simp add: continuous_sample_def Let_def added_def ShowCurrent_def MODE_CONTINUOUS_def)

section \<open>The settings the menu can reach\<close>

text \<open>
  The values the claims on the menu assume are the only ones the firmware
  produces: the defaults have them, and every menu action keeps them.
\<close>

lemma default_menu_values: "menu_values default_state"
  by (simp add: menu_values_def default_state_def enumerated_mode_def)

lemma activate_menu_values:
  assumes "menu_values st"
  shows "menu_values (activate MENU_MODE st)" "menu_values (activate MENU_FREQ st)"
    "menu_values (activate MENU_ALERT st)" "menu_values (activate MENU_TIME st)"
proof -
  from assms have m: "iMode st = 0 \<or> iMode st = 1 \<or> iMode st = 2 \<or> iMode st = 3 \<or> iMode st = 4"
    by (simp add: menu_values_def enumerated_mode_def MODE_CONTINUOUS_def MODE_LOW_POWER_def
        MODE_STEALTH_def MODE_CALIBRATE_def MODE_TIMER_def)
  from assms have a: "iAlert st = 0 \<or> iAlert st = 1 \<or> iAlert st = 2"
    by (simp add: menu_values_def ALERT_VIBRATION_def ALERT_LED_def ALERT_BOTH_def)
  from assms have f: "iFreq st = 15 \<or> iFreq st = 30 \<or> iFreq st = 45 \<or> iFreq st = 60"
    by (simp add: menu_values_def)
  from assms have p: "iPeriod st = 5 \<or> iPeriod st = 10 \<or> iPeriod st = 15 \<or> iPeriod st = 20 \<or>
       iPeriod st = 25 \<or> iPeriod st = 30 \<or> iPeriod st = 35 \<or> iPeriod st = 40 \<or>
       iPeriod st = 45 \<or> iPeriod st = 50 \<or> iPeriod st = 55 \<or> iPeriod st = 60"
    by (simp add: menu_values_def)
  show "menu_values (activate MENU_MODE st)"
    using m assms
    by (elim disjE)
       (simp_all add: mode_steps menu_values_def enumerated_mode_def MODE_CONTINUOUS_def
          MODE_LOW_POWER_def MODE_STEALTH_def MODE_CALIBRATE_def MODE_TIMER_def)
  show "menu_values (activate MENU_FREQ st)"
    using f assms by (elim disjE) (simp_all add: freq_steps menu_values_def)
  show "menu_values (activate MENU_ALERT st)"
    using a assms
    by (elim disjE)
       (simp_all add: alert_steps menu_values_def ALERT_VIBRATION_def ALERT_LED_def ALERT_BOTH_def)
  show "menu_values (activate MENU_TIME st)"
    using p assms by (elim disjE) (simp_all add: time_steps menu_values_def)
qed

section \<open>Stealth mode: the update cycles\<close>

lemma getSample_sensor [simp]:
  "sensor (getSample w) = sensor w" "nsamp (getSample w) = Suc (nsamp w)"
  by (simp_all add: getSample_def emit_def)

lemma Vibrate_sensor [simp]:
  "sensor (Vibrate d w) = sensor w" "nsamp (Vibrate d w) = nsamp w"
  by (simp_all add: Vibrate_def Let_def)

lemma wait_release_sensor:
  "wait_release bs w = Some (w', bs') \<Longrightarrow> sensor w' = sensor w \<and> nsamp w' = nsamp w"
  by (induction bs arbitrary: w) (auto split: if_splits)

lemma wait_press_sensor:
  "wait_press bs w = Some (j, w', bs') \<Longrightarrow> sensor w' = sensor w \<and> nsamp w' = nsamp w"
  by (induction bs arbitrary: w) (auto split: if_splits)

lemma buzz_world:
  "\<exists>w'. buzz L (t, w) = (t + 2 * int (nat L), w') \<and>
        trace w' = trace w @ concat (replicate (nat L) pulse) \<and>
        sensor w' = sensor w \<and> nsamp w' = nsamp w"
proof -
  let ?f = "\<lambda>(iTick, w). (iTick + 2, emit (Delay_Ms 395) (Vibrate 100 w))"
  have "\<exists>w'. (?f ^^ n) (t, w) = (t + 2 * int n, w') \<and>
        trace w' = trace w @ concat (replicate n pulse) \<and>
        sensor w' = sensor w \<and> nsamp w' = nsamp w" for n
  proof (induction n)
    case 0
    show ?case by simp
  next
    case (Suc n)
    then obtain w' where
      w': "(?f ^^ n) (t, w) = (t + 2 * int n, w')"
        "trace w' = trace w @ concat (replicate n pulse)"
        "sensor w' = sensor w" "nsamp w' = nsamp w"
      by blast
    have "trace (emit (Delay_Ms 395) (Vibrate 100 w')) = trace w @ (concat (replicate n pulse) @ pulse)"
      using w'(2) by (simp add: pulse_def)
    then have "trace (emit (Delay_Ms 395) (Vibrate 100 w')) = trace w @ concat (replicate (Suc n) pulse)"
      by (simp only: concat_replicate_snoc)
    with w' show ?case by simp
  qed
  then show ?thesis unfolding buzz_def by blast
qed

lemma passes_events_Suc: "passes_events c (Suc m) = pass_events c @ passes_events (Suc c) m"
proof -
  have "[c..<c + Suc m] = c # [Suc c..<Suc c + m]"
    by (subst upt_conv_Cons) simp_all
  then show ?thesis by (simp only: passes_events_def list.map concat.simps)
qed

lemma passes_events_snoc: "passes_events c (Suc m) = passes_events c m @ pass_events (c + m)"
  by (simp add: passes_events_def)

lemma passes_events_0 [simp]: "passes_events c 0 = []"
  by (simp add: passes_events_def)

lemma tick_residue:
  assumes "0 < k" "t mod (20 * int k) = int c"
  shows "t mod 20 = int (c mod 20)"
proof -
  have "t mod (20 * int k) mod 20 = t mod 20"
    by (rule mod_mod_cancel) simp
  with assms(2) show ?thesis by (simp add: zmod_int)
qed

lemma sample_tick:
  "c mod 20 = 19 \<Longrightarrow> Suc c div 20 - c div 20 = (1::nat)"
  "c mod 20 \<noteq> 19 \<Longrightarrow> Suc c div 20 - c div 20 = (0::nat)"
  by (simp_all add: div_Suc mod_Suc)

lemma last_tick: "0 < k \<Longrightarrow> (20 * k - 1) mod 20 = (19::nat)"
  by (cases k) (simp_all add: mod_Suc)

lemma stealth_tick_quiet:
  assumes "0 < k" "0 \<le> t" "t mod (20 * int k) = int c" "Suc c < 20 * k"
  shows "\<exists>w' l'. stealth_tick (20 * int k) t l w = (t + 1, l', w') \<and>
           trace w' = trace w @ pass_events c \<and> sensor w' = sensor w \<and>
           nsamp w' = nsamp w + (Suc c div 20 - c div 20)"
proof -
  have u: "0 < 20 * int k" using assms(1) by simp
  have a: "t smod (20 * int k) \<noteq> 20 * int k - 1"
    using assms u by (simp add: smod_nonneg)
  have b: "t smod 20 = int (c mod 20)"
    using tick_residue [OF assms(1) assms(3)] assms(2) by (simp add: smod_nonneg)
  show ?thesis
  proof (cases "c mod 20 = 19")
    case True
    then have "Suc c div 20 - c div 20 = 1" by (rule sample_tick)
    with True a b show ?thesis
      by (simp add: stealth_tick_def Let_def pass_events_def)
  next
    case False
    then have "Suc c div 20 - c div 20 = 0" by (rule sample_tick)
    with False a b show ?thesis
      by (simp add: stealth_tick_def Let_def pass_events_def)
  qed
qed

lemma stealth_quiet:
  assumes "0 < k"
  shows "0 \<le> t \<Longrightarrow> t mod (20 * int k) = int c \<Longrightarrow> c + length ps < 20 * k \<Longrightarrow>
         list_all (\<lambda>b. GetButtons b \<noteq> 3) ps \<Longrightarrow>
         \<exists>w' l'. stealth_loop (20 * int k) t l (ps @ bs) w =
                   stealth_loop (20 * int k) (t + int (length ps)) l' bs w' \<and>
                 trace w' = trace w @ passes_events c (length ps) \<and> sensor w' = sensor w \<and>
                 nsamp w' = nsamp w + ((c + length ps) div 20 - c div 20)"
proof (induction ps arbitrary: t c l w)
  case Nil
  show ?case by (intro exI [of _ w] exI [of _ l]) simp
next
  case (Cons p ps)
  from Cons.prems have c: "Suc c < 20 * k" by simp
  from stealth_tick_quiet [OF assms Cons.prems(1) Cons.prems(2) c, of l w] obtain w1 l1 where
    1: "stealth_tick (20 * int k) t l w = (t + 1, l1, w1)"
       "trace w1 = trace w @ pass_events c" "sensor w1 = sensor w"
       "nsamp w1 = nsamp w + (Suc c div 20 - c div 20)"
    by blast
  have m: "(t + 1) mod (20 * int k) = int (Suc c)"
  proof -
    have "(t + 1) mod (20 * int k) = (t mod (20 * int k) + 1) mod (20 * int k)"
      by (simp add: mod_add_left_eq)
    also have "\<dots> = (int c + 1) mod (20 * int k)" using Cons.prems(2) by simp
    also have "\<dots> = int c + 1" using c by simp
    finally show ?thesis by simp
  qed
  from Cons.prems have "0 \<le> t + 1" "Suc c + length ps < 20 * k"
    "list_all (\<lambda>b. GetButtons b \<noteq> 3) ps"
    by simp_all
  from Cons.IH [OF this(1) m this(2) this(3), of l1 w1] obtain w' l' where
    2: "stealth_loop (20 * int k) (t + 1) l1 (ps @ bs) w1 =
          stealth_loop (20 * int k) (t + 1 + int (length ps)) l' bs w'"
       "trace w' = trace w1 @ passes_events (Suc c) (length ps)" "sensor w' = sensor w1"
       "nsamp w' = nsamp w1 + ((Suc c + length ps) div 20 - Suc c div 20)"
    by blast
  have q: "GetButtons p \<noteq> 3" using Cons.prems(4) by simp
  have "t + 1 + int (length ps) = t + int (length (p # ps))" by simp
  with 2(1) have "stealth_loop (20 * int k) (t + 1) l1 (ps @ bs) w1 =
          stealth_loop (20 * int k) (t + int (length (p # ps))) l' bs w'"
    by (simp only:)
  moreover have "stealth_loop (20 * int k) t l ((p # ps) @ bs) w =
          stealth_loop (20 * int k) (t + 1) l1 (ps @ bs) w1"
    using q 1(1) by simp
  ultimately have A: "stealth_loop (20 * int k) t l ((p # ps) @ bs) w =
          stealth_loop (20 * int k) (t + int (length (p # ps))) l' bs w'"
    by (simp only:)
  have B: "trace w' = trace w @ passes_events c (length (p # ps))"
    using 1(2) 2(2) by (simp add: passes_events_Suc)
  have "Suc c div 20 \<le> (Suc c + length ps) div 20" "c div 20 \<le> Suc c div 20"
    by (rule div_le_mono, simp)+
  moreover have "c + length (p # ps) = Suc c + length ps" by simp
  ultimately have C: "nsamp w' = nsamp w + ((c + length (p # ps)) div 20 - c div 20)"
    using 1(4) 2(4) by (simp only:) linarith
  from A B C 1(3) 2(3) show ?case by (intro exI [of _ w'] exI [of _ l']) simp
qed

lemma stealth_tick_update:
  assumes "0 < k" "0 \<le> t" "t mod (20 * int k) = 20 * int k - 1"
  shows "\<exists>w'. stealth_tick (20 * int k) t l w =
                 (t + 1 + 2 * stealth_level (sensor w (nsamp w)), stealth_level (sensor w (nsamp w)), w') \<and>
              trace w' = trace w @ pass_events (20 * k - 1) @
                           concat (replicate (nat (stealth_level (sensor w (nsamp w)))) pulse) \<and>
              sensor w' = sensor w \<and> nsamp w' = Suc (nsamp w)"
proof -
  let ?L = "stealth_level (sensor w (nsamp w))"
  let ?w1 = "getSample (emit (Delay_Ms 250) w)"
  have u: "0 < 20 * int k" using assms(1) by simp
  have a: "t smod (20 * int k) = 20 * int k - 1"
    using assms u by (simp add: smod_nonneg)
  have "t mod (20 * int k) = int (20 * k - 1)" using assms(1,3) by (simp add: of_nat_diff)
  from tick_residue [OF assms(1) this] have "t mod 20 = int ((20 * k - 1) mod 20)" .
  moreover have e: "(20 * k - 1) mod 20 = 19" using assms(1) by (rule last_tick)
  ultimately have b: "t smod 20 = 19" using assms(2) by (simp add: smod_nonneg)
  from buzz_world [of ?L t ?w1] obtain w' where
    w': "buzz ?L (t, ?w1) = (t + 2 * int (nat ?L), w')"
       "trace w' = trace ?w1 @ concat (replicate (nat ?L) pulse)"
       "sensor w' = sensor ?w1" "nsamp w' = nsamp ?w1"
    by blast
  have L: "int (nat ?L) = ?L" using stealth_level_range [of "sensor w (nsamp w)"] by simp
  have "stealth_tick (20 * int k) t l w = (t + 1 + 2 * ?L, ?L, w')"
    using a b w'(1) L by (simp add: stealth_tick_def Let_def)
  moreover have "trace w' = trace w @ pass_events (20 * k - 1) @ concat (replicate (nat ?L) pulse)"
    using w'(2) e by (simp add: pass_events_def)
  ultimately show ?thesis using w'(3,4) by simp
qed

lemma stealth_cycle:
  assumes "0 < k" "0 \<le> t" "t mod (20 * int k) = int c" "c < 20" "length cs + c = 20 * k"
    and "list_all (\<lambda>b. GetButtons b \<noteq> 3) cs"
  shows "\<exists>w'. stealth_loop (20 * int k) t l (cs @ bs) w =
                 stealth_loop (20 * int k)
                   (t + int (length cs) + 2 * stealth_level (sensor w (nsamp w + k - 1)))
                   (stealth_level (sensor w (nsamp w + k - 1))) bs w' \<and>
              trace w' = trace w @ cycle_events k c (nat (stealth_level (sensor w (nsamp w + k - 1)))) \<and>
              sensor w' = sensor w \<and> nsamp w' = nsamp w + k"
proof -
  let ?u = "20 * int k"
  let ?L = "stealth_level (sensor w (nsamp w + k - 1))"
  from assms(1,4,5) have n: "cs \<noteq> []" by auto
  define ps where "ps = butlast cs"
  define p where "p = last cs"
  have cs: "cs = ps @ [p]" using n by (simp add: ps_def p_def)
  have len: "length ps = 20 * k - 1 - c" using assms(5) cs by simp
  have fit: "c + length ps < 20 * k" using assms(1,4) len by simp
  have nq: "list_all (\<lambda>b. GetButtons b \<noteq> 3) ps" "GetButtons p \<noteq> 3"
    using assms(6) cs by simp_all
  from stealth_quiet [OF assms(1) assms(2) assms(3) fit nq(1), of l "p # bs" w] obtain w1 l1 where
    1: "stealth_loop ?u t l (ps @ p # bs) w = stealth_loop ?u (t + int (length ps)) l1 (p # bs) w1"
       "trace w1 = trace w @ passes_events c (length ps)" "sensor w1 = sensor w"
       "nsamp w1 = nsamp w + ((c + length ps) div 20 - c div 20)"
    by blast
  have cl: "c + length ps = 20 * k - 1" using assms(1,4) len by simp
  have "(20 * k - 1) div 20 = k - 1" using assms(1) by (cases k) (simp_all add: div_Suc)
  moreover have "c div 20 = 0" using assms(4) by simp
  ultimately have s1: "nsamp w1 = nsamp w + k - 1" using 1(4) cl assms(1) by simp
  have t1: "0 \<le> t + int (length ps)" using assms(2) by simp
  have m1: "(t + int (length ps)) mod ?u = ?u - 1"
  proof -
    have "(t + int (length ps)) mod ?u = (t mod ?u + int (length ps)) mod ?u"
      by (simp add: mod_add_left_eq)
    also have "\<dots> = int (c + length ps) mod ?u" using assms(3) by simp
    also have "\<dots> = int (20 * k - 1) mod ?u" by (simp only: cl)
    also have "\<dots> = (?u - 1) mod ?u" using assms(1) by (cases k) simp_all
    also have "\<dots> = ?u - 1" using assms(1) by (intro mod_pos_pos_trivial) simp_all
    finally show ?thesis .
  qed
  from stealth_tick_update [OF assms(1) t1 m1, of l1 w1] 1(3) s1 obtain w' where
    2: "stealth_tick ?u (t + int (length ps)) l1 w1 = (t + int (length ps) + 1 + 2 * ?L, ?L, w')"
       "trace w' = trace w1 @ pass_events (20 * k - 1) @ concat (replicate (nat ?L) pulse)"
       "sensor w' = sensor w1" "nsamp w' = Suc (nsamp w1)"
    by auto
  have "t + int (length ps) + 1 = t + int (length cs)" using cs by simp
  with 2(1) have 3: "stealth_tick ?u (t + int (length ps)) l1 w1 = (t + int (length cs) + 2 * ?L, ?L, w')"
    by (simp only:)
  have "stealth_loop ?u (t + int (length ps)) l1 (p # bs) w1 =
          stealth_loop ?u (t + int (length cs) + 2 * ?L) ?L bs w'"
    using nq(2) 3 by simp
  with 1(1) cs have A: "stealth_loop ?u t l (cs @ bs) w =
          stealth_loop ?u (t + int (length cs) + 2 * ?L) ?L bs w'"
    by simp
  have "20 * k - c = Suc (length ps)" using len assms(1,4) by simp
  then have "passes_events c (20 * k - c) = passes_events c (length ps) @ pass_events (20 * k - 1)"
    using cl by (simp only: passes_events_snoc)
  then have B: "trace w' = trace w @ cycle_events k c (nat ?L)"
    using 1(2) 2(2) by (simp add: cycle_events_def)
  have C: "nsamp w' = nsamp w + k" using 2(4) s1 assms(1) by simp
  from A B C 1(3) 2(3) show ?thesis by (intro exI [of _ w']) simp
qed

lemma stealth_cycles:
  assumes "0 < k"
  shows "0 \<le> t \<Longrightarrow> t mod (20 * int k) = int c \<Longrightarrow> c < 20 \<Longrightarrow>
         cycles_fit k (sensor w) c (nsamp w) css part \<Longrightarrow>
         \<exists>w' t' l'. stealth_loop (20 * int k) t l (concat css @ part @ bs) w =
                      stealth_loop (20 * int k) t' l' bs w' \<and>
                    trace w' = trace w @ cycles_events k (sensor w) c (nsamp w) css part"
proof (induction css arbitrary: t c l w)
  case Nil
  then have "c + length part < 20 * k" "list_all (\<lambda>b. GetButtons b \<noteq> 3) part"
    by simp_all
  from stealth_quiet [OF assms Nil.prems(1) Nil.prems(2) this, of l bs w] show ?case
    by auto
next
  case (Cons cs css)
  let ?u = "20 * int k"
  let ?L = "stealth_level (sensor w (nsamp w + k - 1))"
  from Cons.prems(4) have f: "length cs + c = 20 * k" "list_all (\<lambda>b. GetButtons b \<noteq> 3) cs"
    "cycles_fit k (sensor w) (2 * nat ?L) (nsamp w + k) css part"
    by simp_all
  from stealth_cycle [OF assms Cons.prems(1) Cons.prems(2) Cons.prems(3) f(1) f(2),
      of l "concat css @ part @ bs" w] obtain w1 where
    1: "stealth_loop ?u t l (cs @ concat css @ part @ bs) w =
          stealth_loop ?u (t + int (length cs) + 2 * ?L) ?L (concat css @ part @ bs) w1"
       "trace w1 = trace w @ cycle_events k c (nat ?L)"
       "sensor w1 = sensor w" "nsamp w1 = nsamp w + k"
    by blast
  have L: "1 \<le> ?L" "?L \<le> 6" using stealth_level_range [of "sensor w (nsamp w + k - 1)"] by simp_all
  have t1: "0 \<le> t + int (length cs) + 2 * ?L" using Cons.prems(1) L by simp
  have c1: "2 * nat ?L < 20" using L by simp
  have eq: "int c + (int (length cs) + 2 * ?L) = int (length cs + c) + 2 * ?L" by simp
  have m1: "(t + int (length cs) + 2 * ?L) mod ?u = int (2 * nat ?L)"
  proof -
    have "(t + int (length cs) + 2 * ?L) mod ?u = (t mod ?u + (int (length cs) + 2 * ?L)) mod ?u"
      by (simp add: mod_add_left_eq add.assoc)
    also have "\<dots> = (int c + (int (length cs) + 2 * ?L)) mod ?u"
      by (simp only: Cons.prems(2))
    also have "\<dots> = (int (length cs + c) + 2 * ?L) mod ?u"
      by (simp only: eq)
    also have "\<dots> = (?u + 2 * ?L) mod ?u" by (simp only: f(1)) simp
    also have "\<dots> = (2 * ?L) mod ?u" by simp
    also have "\<dots> = 2 * ?L" using L assms by simp
    finally show ?thesis using L by simp
  qed
  from f(3) 1(3,4) have f1: "cycles_fit k (sensor w1) (2 * nat ?L) (nsamp w1) css part" by simp
  from Cons.IH [OF t1 m1 c1 f1, of ?L] obtain w' t' l' where
    2: "stealth_loop ?u (t + int (length cs) + 2 * ?L) ?L (concat css @ part @ bs) w1 =
          stealth_loop ?u t' l' bs w'"
       "trace w' = trace w1 @ cycles_events k (sensor w1) (2 * nat ?L) (nsamp w1) css part"
    by blast
  have A: "stealth_loop ?u t l (concat (cs # css) @ part @ bs) w = stealth_loop ?u t' l' bs w'"
    using 1(1) 2(1) by simp
  have B: "trace w' = trace w @ cycles_events k (sensor w) c (nsamp w) (cs # css) part"
    using 1(2,3,4) 2(2) by simp
  from A B show ?case by blast
qed

lemma calls_passes: "calls is_pulse (passes_events c m) = 0"
  by (rule calls_none) (auto simp: passes_events_def pass_events_def is_pulse_def)

lemma calls_cycles:
  "calls is_pulse (cycles_events k sens c s css part) = sum_list (map nat (cycles_levels k sens s css))"
  by (induction css arbitrary: c s) (simp_all add: calls_passes cycle_events_def calls_pulses)

lemma pulse_runs_pulses: "pulse_runs n (concat (replicate L pulse) @ es) = pulse_runs (n + L) es"
  by (induction L arbitrary: n) (simp_all add: pulse_def)

lemma pulse_runs_pass:
  "pulse_runs n (pass_events i @ es) = (if n = 0 then [] else [n]) @ pulse_runs 0 es"
  by (simp add: pass_events_def)

lemma pulse_runs_quiet: "pulse_runs 0 (passes_events c m @ es) = pulse_runs 0 es"
proof (induction m arbitrary: c)
  case 0
  show ?case by simp
next
  case (Suc m)
  have "pulse_runs 0 (passes_events c (Suc m) @ es) =
          pulse_runs 0 (pass_events c @ passes_events (Suc c) m @ es)"
    by (simp only: passes_events_Suc append_assoc)
  also have "\<dots> = pulse_runs 0 (passes_events (Suc c) m @ es)"
    by (simp only: pulse_runs_pass) simp
  finally show ?case using Suc.IH by simp
qed

lemma pulse_runs_passes:
  "0 < m \<Longrightarrow> pulse_runs n (passes_events c m @ es) = (if n = 0 then [] else [n]) @ pulse_runs 0 es"
proof -
  assume "0 < m"
  then obtain m' where m: "m = Suc m'" by (cases m) simp_all
  have "pulse_runs n (passes_events c m @ es) =
          pulse_runs n (pass_events c @ passes_events (Suc c) m' @ es)"
    by (simp only: m passes_events_Suc append_assoc)
  also have "\<dots> = (if n = 0 then [] else [n]) @ pulse_runs 0 (passes_events (Suc c) m' @ es)"
    by (simp only: pulse_runs_pass)
  finally show ?thesis by (simp only: pulse_runs_quiet)
qed

lemma pulse_runs_cycles:
  assumes "0 < k"
  shows "c < 20 \<Longrightarrow> cycles_fit k sens c s css part \<Longrightarrow>
         pulse_runs n (cycles_events k sens c s css part @ [oledFill, scd41_stop]) =
           (if n = 0 then [] else [n]) @ map nat (cycles_levels k sens s css)"
proof (induction css arbitrary: c s n)
  case Nil
  show ?case
  proof (cases "length part = 0")
    case True
    then show ?thesis by simp
  next
    case False
    then have "0 < length part" by simp
    then show ?thesis by (simp add: pulse_runs_passes)
  qed
next
  case (Cons cs css)
  let ?L = "stealth_level (sens (s + k - 1))"
  have L: "1 \<le> ?L" "?L \<le> 6" using stealth_level_range [of "sens (s + k - 1)"] by simp_all
  from Cons.prems(2) have f: "cycles_fit k sens (2 * nat ?L) (s + k) css part" by simp
  have c1: "2 * nat ?L < 20" using L by simp
  have m: "0 < 20 * k - c" using assms Cons.prems(1) by simp
  let ?rest = "cycles_events k sens (2 * nat ?L) (s + k) css part @ [oledFill, scd41_stop]"
  have "pulse_runs n (cycles_events k sens c s (cs # css) part @ [oledFill, scd41_stop]) =
          pulse_runs n (passes_events c (20 * k - c) @ concat (replicate (nat ?L) pulse) @ ?rest)"
    by (simp add: cycle_events_def)
  also have "\<dots> = (if n = 0 then [] else [n]) @ pulse_runs 0 (concat (replicate (nat ?L) pulse) @ ?rest)"
    using m by (rule pulse_runs_passes)
  also have "pulse_runs 0 (concat (replicate (nat ?L) pulse) @ ?rest) = pulse_runs (nat ?L) ?rest"
    by (simp only: pulse_runs_pulses) simp
  also have "pulse_runs (nat ?L) ?rest =
               (if nat ?L = 0 then [] else [nat ?L]) @ map nat (cycles_levels k sens (s + k) css)"
    using c1 f by (rule Cons.IH)
  also have "\<dots> = map nat (cycles_levels k sens s (cs # css))" using L by simp
  finally show ?case .
qed

lemma pulse_runs_other:
  "\<forall>e\<in>set xs. e \<notin> set pulse \<Longrightarrow> pulse_runs 0 (xs @ es) = pulse_runs 0 es"
  by (induction xs) (auto simp: pulse_def)

lemma update_period:
  assumes "f \<in> {15, 30, 45, 60 :: i32}" "sint f = 5 * int k"
  shows "sint (f * 4) = 20 * int k" "0 < k"
  using assms by auto

lemma cycles_levels_constant:
  "\<forall>n. sens n = v \<Longrightarrow> cycles_levels k sens s css = replicate (length css) (stealth_level v)"
  by (induction css arbitrary: s) simp_all

lemma RunStealth_trace:
  assumes "iFreq (state w) \<in> {15, 30, 45, 60}"
    and "sint (iFreq (state w)) = 5 * int k"
    and "\<forall>b\<in>set rel. GetButtons b \<noteq> 0" "GetButtons q = 0"
    and "\<forall>b\<in>set idle. GetButtons b = 0" "GetButtons p \<noteq> 0"
    and "cycles_fit k (sensor w) 0 (nsamp w) css part"
    and "GetButtons e = 3"
  shows "\<exists>w'. RunStealth (rel @ q # idle @ p # concat css @ part @ e # rest) w = Some (w', rest) \<and>
           trace w' = trace w @ stealth_prompt @ replicate (length rel + length idle) (Delay_Ms 20) @
              [oledFill, oledPower False, I2CSetSpeed 50000, scd41_start SCD_POWERMODE_NORMAL] @
              cycles_events k (sensor w) 0 (nsamp w) css part @ [oledFill, scd41_stop]"
proof -
  let ?u = "20 * int k"
  from update_period [OF assms(1,2)] have u: "sint (iFreq (state w) * 4) = ?u" and k: "0 < k"
    by simp_all
  let ?w0 = "emit (oledWriteString 0 56 ''press button to start'')
              (emit (oledWriteString 0 32 ''pulses. 1=good, 6=bad'')
              (emit (oledWriteString 0 24 ''be converted to 1-6'')
              (emit (oledWriteString 0 16 ''CO2 measurements will'')
              (emit (oledWriteString 22 0 ''Stealth'') (emit oledFill w)))))"
  have t0: "trace ?w0 = trace w @ stealth_prompt" by (simp add: stealth_prompt_def)
  let ?bs2 = "concat css @ part @ e # rest"
  let ?bs1 = "idle @ p # ?bs2"
  from wait_release_run [OF assms(3,4), of ?bs1 ?w0] obtain w1 where
    r1: "wait_release (rel @ q # ?bs1) ?w0 = Some (w1, ?bs1)"
        "trace w1 = trace ?w0 @ replicate (length rel) (Delay_Ms 20)"
    by blast
  from wait_release_sensor [OF r1(1)] have s1: "sensor w1 = sensor w" "nsamp w1 = nsamp w"
    by simp_all
  from wait_press_run [OF assms(5,6), of ?bs2 w1] obtain w2 where
    r2: "wait_press ?bs1 w1 = Some (GetButtons p, w2, ?bs2)"
        "trace w2 = trace w1 @ replicate (length idle) (Delay_Ms 20)"
    by blast
  from wait_press_sensor [OF r2(1)] s1 have s2: "sensor w2 = sensor w" "nsamp w2 = nsamp w"
    by simp_all
  let ?w3 = "emit (scd41_start SCD_POWERMODE_NORMAL) (emit (I2CSetSpeed 50000)
              (emit (oledPower False) (emit oledFill w2)))"
  have s3: "sensor ?w3 = sensor w" "nsamp ?w3 = nsamp w" using s2 by simp_all
  have t3: "trace ?w3 = trace w @ stealth_prompt @ replicate (length rel + length idle) (Delay_Ms 20) @
              [oledFill, oledPower False, I2CSetSpeed 50000, scd41_start SCD_POWERMODE_NORMAL]"
    using t0 r1(2) r2(2) by (simp add: replicate_add)
  from assms(7) s3 have fit: "cycles_fit k (sensor ?w3) 0 (nsamp ?w3) css part" by simp
  have z: "(0::int) \<le> 0" "(0::int) mod ?u = int 0" "(0::nat) < 20" by simp_all
  from stealth_cycles [OF k z fit, of 1 "e # rest"] obtain w4 t4 l4 where
    r4: "stealth_loop ?u 0 1 (concat css @ part @ e # rest) ?w3 = stealth_loop ?u t4 l4 (e # rest) w4"
        "trace w4 = trace ?w3 @ cycles_events k (sensor ?w3) 0 (nsamp ?w3) css part"
    by blast
  let ?w' = "emit scd41_stop (emit oledFill w4)"
  have r5: "stealth_loop ?u t4 l4 (e # rest) w4 = Some (?w', rest)" using assms(8) by simp
  have "RunStealth (rel @ q # ?bs1) w = stealth_loop ?u 0 1 ?bs2 ?w3"
    using r1(1) r2(1) u by (simp add: RunStealth_def Let_def)
  with r4(1) r5 have run: "RunStealth (rel @ q # ?bs1) w = Some (?w', rest)" by simp
  have "trace ?w' = trace w @ stealth_prompt @ replicate (length rel + length idle) (Delay_Ms 20) @
              [oledFill, oledPower False, I2CSetSpeed 50000, scd41_start SCD_POWERMODE_NORMAL] @
              cycles_events k (sensor w) 0 (nsamp w) css part @ [oledFill, scd41_stop]"
    using r4(2) t3 s3 by simp
  with run show ?thesis by blast
qed

text \<open>
  Claim C7.  Take a Stealth session with an update time of \<open>5 k\<close> seconds, one
  of 15, 30, 45 and 60: the prompt, the wait for the release and for a press,
  then the loop, read as \<open>css\<close>, the readings of its complete update cycles,
  and \<open>part\<close>, those of the passes after them, and at last a reading with
  both buttons.  \<open>RunStealth\<close> returns, and what it did is known call for call.
  The loop counts ticks of a quarter second, \<open>iUpdate = 4 * iFreq = 20 k\<close> to a
  period; a pass of 250 ms is one tick and a pulse (motor on for 100 ms, off
  for 395 ms) two.  Every twentieth tick a sample is taken, and the pass of
  the last tick of each period takes a sample and then emits \<open>level\<close> pulses,
  \<open>level\<close> being \<open>1 + co2/500\<close> with truncating division, kept within 1 and
  6, of that sample.  No other pulse is emitted: the runs of pulses of the
  session are as long as the levels of its cycles, one run for each cycle.
  With 750 ppm throughout every cycle has 2 pulses.  The tick counter is an
  unbounded integer here, as in the model of the loop.
\<close>

theorem stealth_session:
  assumes "iFreq (state w) \<in> {15, 30, 45, 60}"
    and "sint (iFreq (state w)) = 5 * int k"
    and "\<forall>b\<in>set rel. GetButtons b \<noteq> 0" "GetButtons q = 0"
    and "\<forall>b\<in>set idle. GetButtons b = 0" "GetButtons p \<noteq> 0"
    and "cycles_fit k (sensor w) 0 (nsamp w) css part"
    and "GetButtons e = 3"
  shows "(\<exists>w'. RunStealth (rel @ q # idle @ p # concat css @ part @ e # rest) w = Some (w', rest) \<and>
           added w w' = stealth_prompt @ replicate (length rel + length idle) (Delay_Ms 20) @
              [oledFill, oledPower False, I2CSetSpeed 50000, scd41_start SCD_POWERMODE_NORMAL] @
              cycles_events k (sensor w) 0 (nsamp w) css part @ [oledFill, scd41_stop] \<and>
           pulse_runs 0 (added w w') = map nat (cycles_levels k (sensor w) (nsamp w) css) \<and>
           calls is_pulse (added w w') = sum_list (map nat (cycles_levels k (sensor w) (nsamp w) css)) \<and>
           ((\<forall>n. sensor w n = 750) \<longrightarrow> pulse_runs 0 (added w w') = replicate (length css) 2)) \<and>
         stealth_level co2 = max 1 (min 6 (1 + co2 sdiv 500)) \<and>
         stealth_level 750 = 2"
proof (intro conjI)
  let ?pre = "stealth_prompt @ replicate (length rel + length idle) (Delay_Ms 20) @
              [oledFill, oledPower False, I2CSetSpeed 50000, scd41_start SCD_POWERMODE_NORMAL]"
  let ?cyc = "cycles_events k (sensor w) 0 (nsamp w) css part"
  let ?lev = "cycles_levels k (sensor w) (nsamp w) css"
  from update_period [OF assms(1,2)] have k: "0 < k" by simp
  from RunStealth_trace [OF assms, of rest] obtain w' where
    r: "RunStealth (rel @ q # idle @ p # concat css @ part @ e # rest) w = Some (w', rest)"
       "trace w' = trace w @ ?pre @ ?cyc @ [oledFill, scd41_stop]"
    by auto
  have a: "added w w' = ?pre @ ?cyc @ [oledFill, scd41_stop]"
    using r(2) by (intro added_append) simp
  have o: "\<forall>e\<in>set ?pre. e \<notin> set pulse"
    by (auto simp: stealth_prompt_def pulse_def)
  have "pulse_runs 0 (?pre @ ?cyc @ [oledFill, scd41_stop]) = pulse_runs 0 (?cyc @ [oledFill, scd41_stop])"
    using o by (rule pulse_runs_other)
  also have "\<dots> = (if (0::nat) = 0 then [] else [0]) @ map nat ?lev"
    using k _ assms(7) by (rule pulse_runs_cycles) simp
  finally have b: "pulse_runs 0 (added w w') = map nat ?lev" using a by simp
  have "calls is_pulse ?pre = 0"
    using o by (intro calls_none) (auto simp: is_pulse_def pulse_def)
  then have c: "calls is_pulse (added w w') = sum_list (map nat ?lev)"
    using a by (simp add: calls_cycles is_pulse_def)
  have l: "stealth_level 750 = 2"
    by (simp add: stealth_level_def signed_divide_int_def)
  have d: "(\<forall>n. sensor w n = 750) \<longrightarrow> pulse_runs 0 (added w w') = replicate (length css) 2"
  proof
    assume "\<forall>n. sensor w n = 750"
    then have "?lev = replicate (length css) (stealth_level 750)"
      by (rule cycles_levels_constant)
    with b l show "pulse_runs 0 (added w w') = replicate (length css) 2" by simp
  qed
  have a': "added w w' = stealth_prompt @ replicate (length rel + length idle) (Delay_Ms 20) @
              [oledFill, oledPower False, I2CSetSpeed 50000, scd41_start SCD_POWERMODE_NORMAL] @
              cycles_events k (sensor w) 0 (nsamp w) css part @ [oledFill, scd41_stop]"
    using a by simp
  from r(1) a' b c d show "\<exists>w'. RunStealth (rel @ q # idle @ p # concat css @ part @ e # rest) w = Some (w', rest) \<and>
           added w w' = stealth_prompt @ replicate (length rel + length idle) (Delay_Ms 20) @
              [oledFill, oledPower False, I2CSetSpeed 50000, scd41_start SCD_POWERMODE_NORMAL] @
              cycles_events k (sensor w) 0 (nsamp w) css part @ [oledFill, scd41_stop] \<and>
           pulse_runs 0 (added w w') = map nat (cycles_levels k (sensor w) (nsamp w) css) \<and>
           calls is_pulse (added w w') = sum_list (map nat (cycles_levels k (sensor w) (nsamp w) css)) \<and>
           ((\<forall>n. sensor w n = 750) \<longrightarrow> pulse_runs 0 (added w w') = replicate (length css) 2)"
    by (intro exI [of _ w'] conjI)
  show "stealth_level co2 = max 1 (min 6 (1 + co2 sdiv 500))"
    by (rule stealth_level_clamp)
  show "stealth_level 750 = 2" by (rule l)
qed

theorem stealth_session_witness:
  "iFreq (state (stealth_world 15 750)) \<in> {15, 30, 45, 60} \<and>
   sint (iFreq (state (stealth_world 15 750))) = 5 * int 3 \<and>
   GetButtons btn_none = 0 \<and> GetButtons btn_1 \<noteq> 0 \<and> GetButtons btn_both = 3 \<and>
   cycles_fit 3 (sensor (stealth_world 15 750)) 0 (nsamp (stealth_world 15 750))
     [replicate 60 btn_none, replicate 56 btn_0] (replicate 7 btn_1) \<and>
   (\<forall>n. sensor (stealth_world 15 750) n = 750) \<and>
   (\<exists>w'. RunStealth (btn_none # btn_1 # replicate 60 btn_none @ replicate 56 btn_0 @
                      replicate 7 btn_1 @ [btn_both]) (stealth_world 15 750) = Some (w', []) \<and>
         added (stealth_world 15 750) w' =
           stealth_prompt @
           [oledFill, oledPower False, I2CSetSpeed 50000, scd41_start SCD_POWERMODE_NORMAL] @
           cycle_events 3 0 2 @ cycle_events 3 4 2 @ passes_events 4 7 @ [oledFill, scd41_stop] \<and>
         pulse_runs 0 (added (stealth_world 15 750) w') = [2, 2] \<and>
         calls is_pulse (added (stealth_world 15 750) w') = 4) \<and>
   sint (iFreq (state (rising_world 30))) = 5 * int 6 \<and>
   cycles_fit 6 (sensor (rising_world 30)) 0 (nsamp (rising_world 30))
     [replicate 120 btn_none, replicate 114 btn_none, replicate 108 btn_none] [] \<and>
   (\<exists>w'. RunStealth (btn_both # btn_none # btn_none # btn_both # replicate 120 btn_none @
                      replicate 114 btn_none @ replicate 108 btn_none @ [btn_both, btn_1])
            (rising_world 30) = Some (w', [btn_1]) \<and>
         pulse_runs 0 (added (rising_world 30) w') = [3, 6, 6] \<and>
         calls is_pulse (added (rising_world 30) w') = 15) \<and>
   stealth_level 1250 = max 1 (min 6 (1 + 1250 sdiv 500))"
proof -
  let ?w = "stealth_world 15 750"
  let ?v = "rising_world 30"
  have f: "iFreq (state ?w) \<in> {15, 30, 45, 60}" "iFreq (state ?v) \<in> {15, 30, 45, 60}"
    by (simp_all add: stealth_world_def rising_world_def)
  have k: "sint (iFreq (state ?w)) = 5 * int 3" "sint (iFreq (state ?v)) = 5 * int 6"
    by (simp_all add: stealth_world_def rising_world_def)
  have g: "GetButtons btn_none = 0" "GetButtons btn_1 \<noteq> 0" "GetButtons btn_both = 3"
    "GetButtons btn_both \<noteq> 0"
    by simp_all
  have n: "\<forall>b\<in>set []. GetButtons b \<noteq> 0" "\<forall>b\<in>set []. GetButtons b = 0"
    "\<forall>b\<in>set [btn_both]. GetButtons b \<noteq> 0" "\<forall>b\<in>set [btn_none]. GetButtons b = 0"
    by simp_all
  have s: "\<forall>n. sensor ?w n = 750"
    by (simp add: stealth_world_def power_on_def)
  have sw: "sensor ?w = (\<lambda>n. 750)" "nsamp ?w = 0"
    by (simp_all add: stealth_world_def power_on_def)
  have l: "stealth_level 750 = 2" "stealth_level 1250 = 3" "stealth_level 2750 = 6"
    "stealth_level 4250 = 6"
    by (simp_all add: stealth_level_def signed_divide_int_def)
  have c: "cycles_fit 3 (sensor ?w) 0 (nsamp ?w) [replicate 60 btn_none, replicate 56 btn_0]
             (replicate 7 btn_1)"
    using s by (simp add: l list_all_iff)
  have sv: "sensor ?v = (\<lambda>n. 250 * int n)" "nsamp ?v = 0"
    by (simp_all add: rising_world_def stealth_world_def power_on_def)
  have d: "cycles_fit 6 (sensor ?v) 0 (nsamp ?v)
             [replicate 120 btn_none, replicate 114 btn_none, replicate 108 btn_none] []"
    by (simp add: sv l list_all_iff)
  from stealth_session [OF f(1) k(1) n(1) g(1) n(2) g(2) c g(3), of "[]" 750]
  have A: "\<exists>w'. RunStealth (btn_none # btn_1 # replicate 60 btn_none @ replicate 56 btn_0 @
                      replicate 7 btn_1 @ [btn_both]) ?w = Some (w', []) \<and>
         added ?w w' =
           stealth_prompt @
           [oledFill, oledPower False, I2CSetSpeed 50000, scd41_start SCD_POWERMODE_NORMAL] @
           cycle_events 3 0 2 @ cycle_events 3 4 2 @ passes_events 4 7 @ [oledFill, scd41_stop] \<and>
         pulse_runs 0 (added ?w w') = [2, 2] \<and>
         calls is_pulse (added ?w w') = 4"
    by (simp add: l sw) blast
  from stealth_session [OF f(2) k(2) n(3) g(1) n(4) g(4) d g(3), of "[btn_1]" 1250]
  have B: "(\<exists>w'. RunStealth (btn_both # btn_none # btn_none # btn_both # replicate 120 btn_none @
                      replicate 114 btn_none @ replicate 108 btn_none @ [btn_both, btn_1])
            ?v = Some (w', [btn_1]) \<and>
         pulse_runs 0 (added ?v w') = [3, 6, 6] \<and>
         calls is_pulse (added ?v w') = 15) \<and>
         stealth_level 1250 = max 1 (min 6 (1 + 1250 sdiv 500))"
    by (auto simp add: sv l)
  note B1 = conjunct1 [OF B] and B2 = conjunct2 [OF B]
  from f(1) k(1) g(1,2,3) c s A k(2) d B1 B2 show ?thesis by (intro conjI)
qed

section \<open>Sensor sessions: the calls of each mode\<close>









end
